theory Spec2Isabelle
  imports Main "HOL-Library.Word"
begin

unbundle bit_operations_syntax

section \<open>Abnormal terminations\<close>

text \<open>
  The source is C++ without bounds checks on raw reads. Three ways of leaving a function
  other than by \<^verbatim>\<open>return\<close> are made explicit:
  \<^item> \<open>AssertFailed\<close>: an \<^verbatim>\<open>assert(...)\<close> of the source does not hold (the program is
    taken as built with its assertions);
  \<^item> \<open>OutOfRange\<close>: \<^verbatim>\<open>std::vector::at\<close> or \<^verbatim>\<open>std::string_view::substr\<close> throws
    \<^verbatim>\<open>std::out_of_range\<close>;
  \<^item> \<open>OutOfBounds\<close>: a byte outside the file buffer (or behind the terminator of a
    string) is dereferenced, which has no defined behaviour in the source.
  A function that can also loop forever returns \<open>(fault + 'a) option\<close>, where \<open>None\<close>
  stands for not returning.
\<close>

datatype fault = AssertFailed | OutOfRange | OutOfBounds

section \<open>Field sizes decoded from field names\<close>

text \<open>\<^verbatim>\<open>std::string_view::starts_with\<close> and \<^verbatim>\<open>find_first_of\<close> (\<open>None\<close> is \<^verbatim>\<open>npos\<close>).\<close>

definition starts_with :: "string \<Rightarrow> string \<Rightarrow> bool" where
  "starts_with s p = (take (length p) s = p)"

fun find_first_of :: "string \<Rightarrow> char \<Rightarrow> nat option" where
  "find_first_of [] c = None"
| "find_first_of (x # xs) c =
     (if x = c then Some 0 else map_option Suc (find_first_of xs c))"

definition isdigit :: "char \<Rightarrow> bool" where
  "isdigit c = (48 \<le> (of_char c :: nat) \<and> (of_char c :: nat) \<le> 57)"

text \<open>
  The inner loop of \<^verbatim>\<open>GetFieldSizeByName\<close>:
  \<^verbatim>\<open>while(isdigit(*span.Data())) { num = num * 10 + (digit - '0'); span.Advance(); }\<close>.
  The span is modelled by the characters between its \<^verbatim>\<open>begin\<close> and the end of the
  name; the byte at the end of the name is the terminator of the C string the name was
  taken from, which is not a digit. \<^verbatim>\<open>num\<close> is a \<^verbatim>\<open>size_t\<close> and wraps modulo \<open>2 ^ 64\<close>.
\<close>

fun digits_loop :: "string \<Rightarrow> 64 word \<Rightarrow> string \<times> 64 word" where
  "digits_loop [] num = ([], num)"
| "digits_loop (c # cs) num =
     (if isdigit c then digits_loop cs (num * 10 + (of_char c - 48)) else (c # cs, num))"

text \<open>
  The outer loop \<^verbatim>\<open>while(span.Size() > 0)\<close>. A character that is neither \<^verbatim>\<open>'['\<close> nor
  \<^verbatim>\<open>'\0'\<close> leaves the span unchanged, so the loop runs forever on it. After the digits
  the source advances once more (over the expected \<^verbatim>\<open>']'\<close>) without looking at the
  byte: when the digits run up to the end of the name, that step passes the terminator,
  \<^verbatim>\<open>Size()\<close> wraps to a huge value and the next read is behind the string.
\<close>

partial_function (option) dims_loop :: "string \<Rightarrow> 64 word \<Rightarrow> (fault + 64 word) option" where
  "dims_loop span count =
     (case span of
        [] \<Rightarrow> Some (Inr count)
      | c # cs \<Rightarrow>
          if c = CHR ''['' then
            (case digits_loop cs 0 of
               (rest, num) \<Rightarrow>
                 (case rest of
                    [] \<Rightarrow> Some (Inl OutOfBounds)
                  | _ # rest' \<Rightarrow> dims_loop rest' (count * num)))
          else if c = CHR 0x00 then Some (Inr count)
          else dims_loop (c # cs) count)"

definition GetFieldSizeByName :: "string \<Rightarrow> 64 word \<Rightarrow> (fault + 64 word) option" where
  "GetFieldSizeByName fieldName fieldLen =
     (let length = (if starts_with fieldName ''*'' \<or> starts_with fieldName ''(*''
                    then 8 else fieldLen)
      in case find_first_of fieldName CHR ''['' of
           None \<Rightarrow> Some (Inr (length * 1))
         | Some idxOfArray \<Rightarrow>
             (case dims_loop (drop idxOfArray fieldName) 1 of
                None \<Rightarrow> None
              | Some (Inl e) \<Rightarrow> Some (Inl e)
              | Some (Inr count) \<Rightarrow> Some (Inr (length * count))))"

declare dims_loop.simps [code]

section \<open>The file buffer and spans over it\<close>

text \<open>
  The file is read into one heap array (\<^verbatim>\<open>new uint8_t[fileLen]\<close>): \<open>buf_base\<close> is the
  address the allocator returned and \<open>buf_bytes\<close> the content. A \<^verbatim>\<open>MemorySpan\<close> is a
  pair of raw pointers; they are addresses here, so that \<^verbatim>\<open>Align4\<close> rounds the address
  (not the file offset), as the source does.
\<close>

record buffer =
  buf_base :: nat
  buf_bytes :: "8 word list"

record MemorySpan =
  span_begin :: nat
  span_end :: nat

definition Empty :: "MemorySpan \<Rightarrow> bool" where
  "Empty s = (int (span_end s) - int (span_begin s) \<le> 0)"

definition Advance :: "MemorySpan \<Rightarrow> nat \<Rightarrow> MemorySpan" where
  "Advance s d = s\<lparr>span_begin := span_begin s + d\<rparr>"

definition Align4 :: "MemorySpan \<Rightarrow> MemorySpan" where
  "Align4 s =
     (let misAlign = span_begin s mod 4
      in if misAlign \<noteq> 0 then Advance s (4 - misAlign) else s)"

text \<open>
  \<^verbatim>\<open>ReadTypePtr<T>(span, count)\<close> returns the current position and advances the span by
  \<^verbatim>\<open>sizeof(T) * count\<close>; \<^verbatim>\<open>PeekTypePtr<T>(span, offset)\<close> returns the position
  \<^verbatim>\<open>offset\<close> bytes into the span. Neither looks at the end of the span.
\<close>

definition ReadTypePtr :: "nat \<Rightarrow> MemorySpan \<Rightarrow> nat \<Rightarrow> nat \<times> MemorySpan" where
  "ReadTypePtr sizeof_T span count = (span_begin span, Advance span (sizeof_T * count))"

definition PeekTypePtr :: "MemorySpan \<Rightarrow> 64 word \<Rightarrow> nat" where
  "PeekTypePtr span offset = span_begin (Advance span (unat offset))"

text \<open>
  Dereferencing: the bytes must lie inside the buffer. Multi-byte integers are read in
  the byte order of the host the program is built for (little endian).
\<close>

definition read_bytes :: "buffer \<Rightarrow> nat \<Rightarrow> nat \<Rightarrow> fault + 8 word list" where
  "read_bytes mem p n =
     (if buf_base mem \<le> p \<and> p + n \<le> buf_base mem + length (buf_bytes mem)
      then Inr (take n (drop (p - buf_base mem) (buf_bytes mem)))
      else Inl OutOfBounds)"

definition le_word :: "8 word list \<Rightarrow> 'a::len word" where
  "le_word bs = of_nat (foldr (\<lambda>b n. unat b + 256 * n) bs 0)"

definition deref_u8 :: "buffer \<Rightarrow> nat \<Rightarrow> fault + 8 word" where
  "deref_u8 mem p = (case read_bytes mem p 1 of Inl e \<Rightarrow> Inl e | Inr bs \<Rightarrow> Inr (hd bs))"

definition deref_u16 :: "buffer \<Rightarrow> nat \<Rightarrow> fault + 16 word" where
  "deref_u16 mem p = (case read_bytes mem p 2 of Inl e \<Rightarrow> Inl e | Inr bs \<Rightarrow> Inr (le_word bs))"

definition deref_u32 :: "buffer \<Rightarrow> nat \<Rightarrow> fault + 32 word" where
  "deref_u32 mem p = (case read_bytes mem p 4 of Inl e \<Rightarrow> Inl e | Inr bs \<Rightarrow> Inr (le_word bs))"

definition deref_u64 :: "buffer \<Rightarrow> nat \<Rightarrow> fault + 64 word" where
  "deref_u64 mem p = (case read_bytes mem p 8 of Inl e \<Rightarrow> Inl e | Inr bs \<Rightarrow> Inr (le_word bs))"

text \<open>
  \<^verbatim>\<open>MemorySpan::AsString\<close> builds a \<^verbatim>\<open>std::string_view\<close> from the \<^verbatim>\<open>char*\<close> at
  \<^verbatim>\<open>begin\<close>: the characters up to the first zero byte, whatever \<^verbatim>\<open>end\<close> is.
\<close>

definition byte_char :: "8 word \<Rightarrow> char" where
  "byte_char b =
     Char (bit b 0) (bit b 1) (bit b 2) (bit b 3) (bit b 4) (bit b 5) (bit b 6) (bit b 7)"

definition cstring_at :: "buffer \<Rightarrow> nat \<Rightarrow> fault + string" where
  "cstring_at mem p =
     (if p < buf_base mem then Inl OutOfBounds
      else let rest = drop (p - buf_base mem) (buf_bytes mem)
           in if 0 \<in> set rest then Inr (map byte_char (takeWhile (\<lambda>b. b \<noteq> 0) rest))
              else Inl OutOfBounds)"

definition AsString :: "buffer \<Rightarrow> MemorySpan \<Rightarrow> fault + string" where
  "AsString mem s = cstring_at mem (span_begin s)"

text \<open>\<^verbatim>\<open>Identify\<close> is \<^verbatim>\<open>memcmp(bytes, id, n) == 0\<close> on bytes already read.\<close>

definition Identify :: "8 word list \<Rightarrow> string \<Rightarrow> nat \<Rightarrow> bool" where
  "Identify bs ident n = (take n bs = take n (map of_char ident))"

definition at_vec :: "'a list \<Rightarrow> nat \<Rightarrow> fault + 'a" where
  "at_vec xs i = (if i < length xs then Inr (xs ! i) else Inl OutOfRange)"

section \<open>File blocks and the controller's tables\<close>

record FileBlockDesc64 =
  d_code :: "8 word list"
  d_size :: "32 word"
  d_oldMemoryAddress :: "64 word"
  d_sdnaIndex :: "32 word"
  d_count :: "32 word"

datatype FileBlock =
  FileBlock (desc: FileBlockDesc64) (data: MemorySpan) (childBlocks: "FileBlock list")
    (fileOffset: int)

record TypeInfo =
  ti_type :: MemorySpan
  ti_length :: "16 word"

record FieldDesc =
  f_typeIndex :: "16 word"
  f_nameIndex :: "16 word"

record StructDesc =
  s_typeIndex :: "16 word"
  s_fields :: "FieldDesc list"

record blendExpl =
  m_fileSpan :: MemorySpan
  m_blockArray :: "FileBlock list"
  m_nameArray :: "MemorySpan list"
  m_typeArray :: "TypeInfo list"
  m_structArray :: "StructDesc list"

definition HeaderID :: string where "HeaderID = ''BLENDER''"
definition BlockSDNA :: string where "BlockSDNA = ''DNA1''"
definition BlockOB :: string where "BlockOB = [CHR ''O'', CHR ''B'', CHR 0x00, CHR 0x00]"
definition BlockDATA :: string where "BlockDATA = ''DATA''"
definition EOBMark :: string where "EOBMark = ''ENDB''"

text \<open>The 24 bytes of a \<^verbatim>\<open>FileBlockDesc64\<close> at an address.\<close>

definition deref_FileBlockDesc64 :: "buffer \<Rightarrow> nat \<Rightarrow> fault + FileBlockDesc64" where
  "deref_FileBlockDesc64 mem p =
     (case read_bytes mem p 24 of
        Inl e \<Rightarrow> Inl e
      | Inr bs \<Rightarrow>
          Inr \<lparr>d_code = take 4 bs,
               d_size = le_word (take 4 (drop 4 bs)),
               d_oldMemoryAddress = le_word (take 8 (drop 8 bs)),
               d_sdnaIndex = le_word (take 4 (drop 16 bs)),
               d_count = le_word (take 4 (drop 20 bs))\<rparr>)"

section \<open>Parsing the schema block\<close>

text \<open>
  The string loops of \<^verbatim>\<open>ParseSDNA\<close>:
  \<^verbatim>\<open>while(!blockSpan.Empty() && *blockSpan.Data() != 0) blockSpan.Advance();\<close>
\<close>

function skip_string :: "buffer \<Rightarrow> MemorySpan \<Rightarrow> fault + MemorySpan" where
  "skip_string mem blockSpan =
     (if Empty blockSpan then Inr blockSpan
      else case deref_u8 mem (span_begin blockSpan) of
             Inl e \<Rightarrow> Inl e
           | Inr b \<Rightarrow> if b \<noteq> 0 then skip_string mem (Advance blockSpan 1) else Inr blockSpan)"
  by pat_completeness auto
termination
  by (relation "measure (\<lambda>(mem, s). span_end s - span_begin s)")
     (auto simp: Empty_def Advance_def)

declare skip_string.simps [simp del]

text \<open>
  The body of the \<^verbatim>\<open>NAME\<close> loop, \<open>n\<close> iterations to go: the span stored for a name
  runs from the first character to just behind the terminator.
\<close>

fun read_names :: "buffer \<Rightarrow> nat \<Rightarrow> MemorySpan \<Rightarrow> MemorySpan list
    \<Rightarrow> fault + (MemorySpan \<times> MemorySpan list)" where
  "read_names mem 0 blockSpan names = Inr (blockSpan, names)"
| "read_names mem (Suc n) blockSpan names =
     (case skip_string mem blockSpan of
        Inl e \<Rightarrow> Inl e
      | Inr s1 \<Rightarrow>
          let s2 = Advance s1 1;
              nameSpan = \<lparr>span_begin = span_begin blockSpan, span_end = span_begin s2\<rparr>
          in read_names mem n s2 (names @ [nameSpan]))"

fun read_types :: "buffer \<Rightarrow> nat \<Rightarrow> MemorySpan \<Rightarrow> TypeInfo list
    \<Rightarrow> fault + (MemorySpan \<times> TypeInfo list)" where
  "read_types mem 0 blockSpan types = Inr (blockSpan, types)"
| "read_types mem (Suc n) blockSpan types =
     (case skip_string mem blockSpan of
        Inl e \<Rightarrow> Inl e
      | Inr s1 \<Rightarrow>
          let s2 = Advance s1 1;
              typeSpan = \<lparr>span_begin = span_begin blockSpan, span_end = span_begin s2\<rparr>
          in read_types mem n s2 (types @ [\<lparr>ti_type = typeSpan, ti_length = 0\<rparr>]))"

text \<open>The \<^verbatim>\<open>TLEN\<close> loop at index \<open>i\<close>, \<open>n\<close> iterations to go.\<close>

fun read_lengths :: "buffer \<Rightarrow> nat \<Rightarrow> nat \<Rightarrow> MemorySpan \<Rightarrow> TypeInfo list
    \<Rightarrow> fault + (MemorySpan \<times> TypeInfo list)" where
  "read_lengths mem 0 i blockSpan types = Inr (blockSpan, types)"
| "read_lengths mem (Suc n) i blockSpan types =
     (case ReadTypePtr 2 blockSpan 1 of
        (p, s1) \<Rightarrow>
          (case deref_u16 mem p of
             Inl e \<Rightarrow> Inl e
           | Inr len \<Rightarrow>
               if i < length types
               then read_lengths mem n (Suc i) s1 (types[i := (types ! i)\<lparr>ti_length := len\<rparr>])
               else Inl OutOfRange))"

text \<open>The field loop of one struct record, \<open>n\<close> fields to go.\<close>

fun read_fields :: "buffer \<Rightarrow> nat \<Rightarrow> MemorySpan \<Rightarrow> FieldDesc list
    \<Rightarrow> fault + (MemorySpan \<times> FieldDesc list)" where
  "read_fields mem 0 blockSpan fs = Inr (blockSpan, fs)"
| "read_fields mem (Suc n) blockSpan fs =
     (case ReadTypePtr 2 blockSpan 1 of
        (p1, s1) \<Rightarrow>
          (case deref_u16 mem p1 of
             Inl e \<Rightarrow> Inl e
           | Inr fieldTypeIdx \<Rightarrow>
               (case ReadTypePtr 2 s1 1 of
                  (p2, s2) \<Rightarrow>
                    (case deref_u16 mem p2 of
                       Inl e \<Rightarrow> Inl e
                     | Inr fieldNameIdx \<Rightarrow>
                         read_fields mem n s2
                           (fs @ [\<lparr>f_typeIndex = fieldTypeIdx, f_nameIndex = fieldNameIdx\<rparr>])))))"

text \<open>
  The \<^verbatim>\<open>STRC\<close> loop at index \<open>i\<close>, \<open>n\<close> iterations to go. The fields read are appended
  to the fields the entry already has.
\<close>

fun read_structs :: "buffer \<Rightarrow> nat \<Rightarrow> nat \<Rightarrow> MemorySpan \<Rightarrow> StructDesc list
    \<Rightarrow> fault + (MemorySpan \<times> StructDesc list)" where
  "read_structs mem 0 i blockSpan structs = Inr (blockSpan, structs)"
| "read_structs mem (Suc n) i blockSpan structs =
     (if i < length structs then
        (case ReadTypePtr 2 blockSpan 1 of
           (p1, s1) \<Rightarrow>
             (case deref_u16 mem p1 of
                Inl e \<Rightarrow> Inl e
              | Inr tidx \<Rightarrow>
                  (case ReadTypePtr 2 s1 1 of
                     (p2, s2) \<Rightarrow>
                       (case deref_u16 mem p2 of
                          Inl e \<Rightarrow> Inl e
                        | Inr numFields \<Rightarrow>
                            (case read_fields mem (unat numFields) s2 (s_fields (structs ! i)) of
                               Inl e \<Rightarrow> Inl e
                             | Inr (s3, fs) \<Rightarrow>
                                 read_structs mem n (Suc i) s3
                                   (structs[i := \<lparr>s_typeIndex = tidx, s_fields = fs\<rparr>]))))))
      else Inl OutOfRange)"

text \<open>\<^verbatim>\<open>std::vector::resize\<close>: new entries are value-initialised.\<close>

definition resize_vec :: "'a list \<Rightarrow> nat \<Rightarrow> 'a \<Rightarrow> 'a list" where
  "resize_vec xs n d = take n xs @ replicate (n - length xs) d"

text \<open>A four-byte section tag: read, then asserted.\<close>

definition expect_tag :: "buffer \<Rightarrow> MemorySpan \<Rightarrow> string \<Rightarrow> fault + MemorySpan" where
  "expect_tag mem blockSpan tag =
     (case ReadTypePtr 1 blockSpan 4 of
        (p, s1) \<Rightarrow>
          (case read_bytes mem p 4 of
             Inl e \<Rightarrow> Inl e
           | Inr bs \<Rightarrow> if Identify bs tag 4 then Inr s1 else Inl AssertFailed))"

text \<open>A 32-bit count.\<close>

definition read_count :: "buffer \<Rightarrow> MemorySpan \<Rightarrow> fault + (32 word \<times> MemorySpan)" where
  "read_count mem blockSpan =
     (case ReadTypePtr 4 blockSpan 1 of
        (p, s1) \<Rightarrow>
          (case deref_u32 mem p of Inl e \<Rightarrow> Inl e | Inr c \<Rightarrow> Inr (c, s1)))"

text \<open>
  \<^verbatim>\<open>ParseSDNA\<close>. The tables are members of the controller: the names and types read are
  appended, the lengths are stored at the indices \<open>0 .. typeCount - 1\<close>, and the struct
  table is resized to \<open>structCount\<close>.
\<close>

definition ParseSDNA :: "buffer \<Rightarrow> FileBlockDesc64 \<Rightarrow> MemorySpan \<Rightarrow> blendExpl
    \<Rightarrow> fault + blendExpl" where
  "ParseSDNA mem block blockSpan st =
     (case expect_tag mem blockSpan ''SDNA'' of Inl e \<Rightarrow> Inl e | Inr s1 \<Rightarrow>
     (case expect_tag mem s1 ''NAME'' of Inl e \<Rightarrow> Inl e | Inr s2 \<Rightarrow>
     (case read_count mem s2 of Inl e \<Rightarrow> Inl e | Inr (nameCount, s3) \<Rightarrow>
     (case read_names mem (unat nameCount) s3 (m_nameArray st) of Inl e \<Rightarrow> Inl e
      | Inr (s4, names) \<Rightarrow>
     (case expect_tag mem (Align4 s4) ''TYPE'' of Inl e \<Rightarrow> Inl e | Inr s5 \<Rightarrow>
     (case read_count mem s5 of Inl e \<Rightarrow> Inl e | Inr (typeCount, s6) \<Rightarrow>
     (case read_types mem (unat typeCount) s6 (m_typeArray st) of Inl e \<Rightarrow> Inl e
      | Inr (s7, types) \<Rightarrow>
     (case expect_tag mem (Align4 s7) ''TLEN'' of Inl e \<Rightarrow> Inl e | Inr s8 \<Rightarrow>
     (case read_lengths mem (unat typeCount) 0 s8 types of Inl e \<Rightarrow> Inl e
      | Inr (s9, types') \<Rightarrow>
     (case expect_tag mem (Align4 s9) ''STRC'' of Inl e \<Rightarrow> Inl e | Inr s10 \<Rightarrow>
     (case read_count mem s10 of Inl e \<Rightarrow> Inl e | Inr (structCount, s11) \<Rightarrow>
     (case read_structs mem (unat structCount) 0 s11
             (resize_vec (m_structArray st) (unat structCount)
                \<lparr>s_typeIndex = 0, s_fields = []\<rparr>) of
        Inl e \<Rightarrow> Inl e
      | Inr (s12, structs) \<Rightarrow>
          Inr (st\<lparr>m_nameArray := names, m_typeArray := types',
                  m_structArray := structs\<rparr>)))))))))))))"

section \<open>Parsing the file\<close>

text \<open>
  \<^verbatim>\<open>m_blockArray.at(parentId).childBlocks.emplace_back(block)\<close> on one entry.
\<close>

definition emplace_child :: "FileBlock \<Rightarrow> FileBlock \<Rightarrow> FileBlock" where
  "emplace_child parent block =
     FileBlock (desc parent) (data parent) (childBlocks parent @ [block]) (fileOffset parent)"

text \<open>
  The block loop of \<^verbatim>\<open>ParseFile\<close>. \<^verbatim>\<open>parentId\<close> is a \<^verbatim>\<open>size_t\<close> that starts as
  \<open>-1\<close>; \<open>None\<close> stands for that value. Every block read is appended to
  \<^verbatim>\<open>m_blockArray\<close> first; a \<^verbatim>\<open>DATA\<close> block is then also appended to the children of
  the entry at \<^verbatim>\<open>parentId\<close>. The counter \<^verbatim>\<open>blockCount\<close> is never read and is left out.
\<close>

function ParseFile_loop :: "buffer \<Rightarrow> MemorySpan \<Rightarrow> nat option \<Rightarrow> blendExpl
    \<Rightarrow> fault + blendExpl" where
  "ParseFile_loop mem memoryStream parentId st =
     (if Empty memoryStream then Inr st
      else
        (case deref_FileBlockDesc64 mem (fst (ReadTypePtr 24 memoryStream 1)) of
           Inl e \<Rightarrow> Inl e
         | Inr blendBlock \<Rightarrow>
             (let ms1 = snd (ReadTypePtr 24 memoryStream 1);
                  block = FileBlock blendBlock
                    \<lparr>span_begin = span_begin ms1,
                     span_end = span_begin ms1 + unat (d_size blendBlock)\<rparr>
                    []
                    (int (fst (ReadTypePtr 24 memoryStream 1)) - int (span_begin (m_fileSpan st)));
                  st1 = st\<lparr>m_blockArray := m_blockArray st @ [block]\<rparr>;
                  ms2 = Align4 (Advance ms1 (unat (d_size blendBlock)))
              in if Identify (d_code blendBlock) BlockDATA 4 then
                   (case parentId of
                      None \<Rightarrow> Inl AssertFailed
                    | Some pid \<Rightarrow>
                        if pid < length (m_blockArray st1) then
                          ParseFile_loop mem ms2 parentId
                            (st1\<lparr>m_blockArray :=
                               (m_blockArray st1)
                                 [pid := emplace_child (m_blockArray st1 ! pid) block]\<rparr>)
                        else Inl OutOfRange)
                 else if Identify (d_code blendBlock) BlockSDNA 4 then
                   (case ParseSDNA mem blendBlock ms1 st1 of
                      Inl e \<Rightarrow> Inl e
                    | Inr st2 \<Rightarrow>
                        ParseFile_loop mem ms2 (Some (length (m_blockArray st2) - 1)) st2)
                 else if Identify (d_code blendBlock) EOBMark 4 then Inr st1
                 else ParseFile_loop mem ms2 (Some (length (m_blockArray st1) - 1)) st1)))"
  by pat_completeness auto
termination
  by (relation "measure (\<lambda>(mem, ms, pid, st). span_end ms - span_begin ms)")
     (auto simp: Empty_def Advance_def Align4_def ReadTypePtr_def Let_def)

declare ParseFile_loop.simps [simp del]

text \<open>
  \<^verbatim>\<open>ParseFile\<close> returns \<^verbatim>\<open>true\<close> (\<open>Parsed\<close>) or \<^verbatim>\<open>false\<close>; the three \<^verbatim>\<open>false\<close>
  returns differ in the message printed, which the status records. The argument is the
  buffer the file was read into; a file that cannot be read leaves the span empty.
  \<open>start_state\<close> is the controller after \<^verbatim>\<open>Cleanup()\<close> and the read: the tables are
  empty and \<^verbatim>\<open>m_fileSpan\<close> spans the buffer.
\<close>

datatype status = Parsed | FileNotFound | MagicMismatch | UnsupportedVariant

datatype PointerSize = PTR_4 | PTR_8

datatype Endianness = LittleEndian | BigEndian

definition start_state :: "buffer \<Rightarrow> blendExpl" where
  "start_state mem =
     \<lparr>m_fileSpan = \<lparr>span_begin = buf_base mem,
                     span_end = buf_base mem + length (buf_bytes mem)\<rparr>,
      m_blockArray = [], m_nameArray = [], m_typeArray = [], m_structArray = []\<rparr>"

definition ParseFile :: "buffer \<Rightarrow> fault + (status \<times> blendExpl)" where
  "ParseFile mem =
     (let st = start_state mem
      in if Empty (m_fileSpan st) then Inr (FileNotFound, st)
         else
           (case ReadTypePtr 12 (m_fileSpan st) 1 of
              (blendHeader, memoryStream) \<Rightarrow>
           (case read_bytes mem blendHeader 7 of Inl e \<Rightarrow> Inl e | Inr ident \<Rightarrow>
              if \<not> Identify ident HeaderID 7 then Inr (MagicMismatch, st)
              else
           (case deref_u8 mem (blendHeader + 7) of Inl e \<Rightarrow> Inl e | Inr pointerSize \<Rightarrow>
              if \<not> (pointerSize = of_char CHR ''-'' \<or> pointerSize = of_char CHR ''_'')
              then Inl AssertFailed
              else
           (case deref_u8 mem (blendHeader + 8) of Inl e \<Rightarrow> Inl e | Inr endianness \<Rightarrow>
              (let ptrSize = (if pointerSize = of_char CHR ''_'' then PTR_4 else PTR_8);
                   endian = (if endianness = of_char CHR ''v''
                             then LittleEndian else BigEndian)
               in if ptrSize \<noteq> PTR_8 \<or> endian \<noteq> LittleEndian
                  then Inr (UnsupportedVariant, st)
                  else
                    (case read_bytes mem (blendHeader + 9) 3 of
                       Inl e \<Rightarrow> Inl e
                     | Inr version \<Rightarrow>
                         (case ParseFile_loop mem memoryStream None st of
                            Inl e \<Rightarrow> Inl e
                          | Inr st' \<Rightarrow> Inr (Parsed, st')))))))))"

section \<open>Queries on the parsed file\<close>

fun FindFileBlockByOldAddr_loop :: "FileBlock list \<Rightarrow> 64 word \<Rightarrow> FileBlock option" where
  "FindFileBlockByOldAddr_loop [] oldAddressOfBlock = None"
| "FindFileBlockByOldAddr_loop (block # rest) oldAddressOfBlock =
     (if d_oldMemoryAddress (desc block) = oldAddressOfBlock then Some block
      else FindFileBlockByOldAddr_loop rest oldAddressOfBlock)"

definition FindFileBlockByOldAddr :: "blendExpl \<Rightarrow> 64 word \<Rightarrow> FileBlock option" where
  "FindFileBlockByOldAddr st oldAddressOfBlock =
     (if oldAddressOfBlock \<noteq> 0
      then FindFileBlockByOldAddr_loop (m_blockArray st) oldAddressOfBlock
      else None)"

text \<open>
  \<^verbatim>\<open>GetFieldOffset\<close>: the field loop of the matching struct, with the running offset, and
  the struct loop around it. Both loops end with \<^verbatim>\<open>break\<close>, after which the running
  offset is returned.
\<close>

fun GetFieldOffset_fields :: "buffer \<Rightarrow> blendExpl \<Rightarrow> string \<Rightarrow> FieldDesc list \<Rightarrow> 64 word
    \<Rightarrow> (fault + 64 word) option" where
  "GetFieldOffset_fields mem st fname [] offset = Some (Inr offset)"
| "GetFieldOffset_fields mem st fname (field # rest) offset =
     (case at_vec (m_nameArray st) (unat (f_nameIndex field)) of
        Inl e \<Rightarrow> Some (Inl e)
      | Inr nameSpan \<Rightarrow>
          (case AsString mem nameSpan of
             Inl e \<Rightarrow> Some (Inl e)
           | Inr fieldName \<Rightarrow>
               if fname = fieldName then Some (Inr offset)
               else
                 (case at_vec (m_typeArray st) (unat (f_typeIndex field)) of
                    Inl e \<Rightarrow> Some (Inl e)
                  | Inr ti \<Rightarrow>
                      (case GetFieldSizeByName fieldName (ucast (ti_length ti)) of
                         None \<Rightarrow> None
                       | Some (Inl e) \<Rightarrow> Some (Inl e)
                       | Some (Inr sz) \<Rightarrow>
                           GetFieldOffset_fields mem st fname rest (offset + sz)))))"

fun GetFieldOffset_structs :: "buffer \<Rightarrow> blendExpl \<Rightarrow> string \<Rightarrow> string \<Rightarrow> StructDesc list
    \<Rightarrow> (fault + 64 word) option" where
  "GetFieldOffset_structs mem st sname fname [] = Some (Inr 0)"
| "GetFieldOffset_structs mem st sname fname (structDesc # rest) =
     (case at_vec (m_typeArray st) (unat (s_typeIndex structDesc)) of
        Inl e \<Rightarrow> Some (Inl e)
      | Inr structTypeInfo \<Rightarrow>
          (case AsString mem (ti_type structTypeInfo) of
             Inl e \<Rightarrow> Some (Inl e)
           | Inr typeName \<Rightarrow>
               if sname = typeName
               then GetFieldOffset_fields mem st fname (s_fields structDesc) 0
               else GetFieldOffset_structs mem st sname fname rest))"

definition GetFieldOffset :: "buffer \<Rightarrow> blendExpl \<Rightarrow> string \<Rightarrow> string
    \<Rightarrow> (fault + 64 word) option" where
  "GetFieldOffset mem st sname fname =
     GetFieldOffset_structs mem st sname fname (m_structArray st)"

fun GetStructSizeByName_loop :: "buffer \<Rightarrow> blendExpl \<Rightarrow> string \<Rightarrow> StructDesc list
    \<Rightarrow> fault + 64 word" where
  "GetStructSizeByName_loop mem st structName [] = Inr 0"
| "GetStructSizeByName_loop mem st structName (structDesc # rest) =
     (case at_vec (m_typeArray st) (unat (s_typeIndex structDesc)) of
        Inl e \<Rightarrow> Inl e
      | Inr structTypeInfo \<Rightarrow>
          (case AsString mem (ti_type structTypeInfo) of
             Inl e \<Rightarrow> Inl e
           | Inr typeName \<Rightarrow>
               if structName = typeName then Inr (ucast (ti_length structTypeInfo))
               else GetStructSizeByName_loop mem st structName rest))"

definition GetStructSizeByName :: "buffer \<Rightarrow> blendExpl \<Rightarrow> string \<Rightarrow> fault + 64 word" where
  "GetStructSizeByName mem st structName =
     GetStructSizeByName_loop mem st structName (m_structArray st)"

definition IdentifyStruct :: "buffer \<Rightarrow> blendExpl \<Rightarrow> nat \<Rightarrow> string \<Rightarrow> fault + bool" where
  "IdentifyStruct mem st ident name =
     (if \<not> ident < length (m_structArray st) then Inl AssertFailed
      else
        (case at_vec (m_typeArray st) (unat (s_typeIndex (m_structArray st ! ident))) of
           Inl e \<Rightarrow> Inl e
         | Inr structTypeInfo \<Rightarrow>
             (case AsString mem (ti_type structTypeInfo) of
                Inl e \<Rightarrow> Inl e
              | Inr typeName \<Rightarrow> Inr (name = typeName))))"

section \<open>Walking the next-pointer chains\<close>

text \<open>
  What the walks print goes to \<^verbatim>\<open>std::cout\<close>: a sequence of strings and of \<^verbatim>\<open>float\<close>
  values, the latter kept as the four bytes read.
\<close>

datatype token = Text string | Float "32 word"

text \<open>Sequencing of steps that can fault or not return.\<close>

definition bind_run :: "(fault + 'a) option \<Rightarrow> ('a \<Rightarrow> (fault + 'b) option)
    \<Rightarrow> (fault + 'b) option" where
  "bind_run m f =
     (case m of None \<Rightarrow> None | Some (Inl e) \<Rightarrow> Some (Inl e) | Some (Inr x) \<Rightarrow> f x)"

text \<open>
  Three idioms of the explorers: \<^verbatim>\<open>assert(IdentifyStruct(block.desc.sdnaIndex, name))\<close>,
  \<^verbatim>\<open>*PeekTypePtr<PtrType>(block.data, GetFieldOffset(sname, fname))\<close>, and the
  \<^verbatim>\<open>std::string_view\<close> built from
  \<^verbatim>\<open>PeekTypePtr<char>(block.data, GetFieldOffset(sname, fname))\<close>.
\<close>

definition assert_struct :: "buffer \<Rightarrow> blendExpl \<Rightarrow> FileBlock \<Rightarrow> string
    \<Rightarrow> (fault + unit) option" where
  "assert_struct mem st block name =
     bind_run (Some (IdentifyStruct mem st (unat (d_sdnaIndex (desc block))) name)) (\<lambda>ok.
       if ok then Some (Inr ()) else Some (Inl AssertFailed))"

definition read_pointer_field :: "buffer \<Rightarrow> blendExpl \<Rightarrow> FileBlock \<Rightarrow> string \<Rightarrow> string
    \<Rightarrow> (fault + 64 word) option" where
  "read_pointer_field mem st block sname fname =
     bind_run (GetFieldOffset mem st sname fname) (\<lambda>off.
       Some (deref_u64 mem (PeekTypePtr (data block) off)))"

definition read_string_field :: "buffer \<Rightarrow> blendExpl \<Rightarrow> FileBlock \<Rightarrow> string \<Rightarrow> string
    \<Rightarrow> (fault + string) option" where
  "read_string_field mem st block sname fname =
     bind_run (GetFieldOffset mem st sname fname) (\<lambda>off.
       Some (cstring_at mem (PeekTypePtr (data block) off)))"

text \<open>
  \<^verbatim>\<open>GetBlockNameByID\<close>; \<^verbatim>\<open>substr(2)\<close> throws when the name has fewer than two
  characters.
\<close>

definition GetBlockNameByID :: "buffer \<Rightarrow> blendExpl \<Rightarrow> FileBlock \<Rightarrow> bool
    \<Rightarrow> (fault + string) option" where
  "GetBlockNameByID mem st block offsetBy2 =
     bind_run (GetFieldOffset mem st ''ID'' ''name[66]'') (\<lambda>off.
     bind_run (Some (cstring_at mem (PeekTypePtr (data block) off))) (\<lambda>nameView.
       if offsetBy2
       then (if 2 \<le> length nameView then Some (Inr (drop 2 nameView))
             else Some (Inl OutOfRange))
       else Some (Inr nameView)))"

text \<open>
  \<^verbatim>\<open>TraverseCollectionObjects\<close>. The body between the lookup of the block and the
  recursive call gives what is printed and the address read from \<^verbatim>\<open>*next\<close>. The walk
  carries the output so far and, as a record of its progress that the program does not
  keep, the blocks it has worked on.
\<close>

definition TraverseCollectionObjects_body :: "buffer \<Rightarrow> blendExpl \<Rightarrow> FileBlock
    \<Rightarrow> (fault + token list \<times> 64 word) option" where
  "TraverseCollectionObjects_body mem st collectionObject =
     bind_run (assert_struct mem st collectionObject ''CollectionObject'') (\<lambda>_.
     bind_run (read_pointer_field mem st collectionObject ''CollectionObject'' ''*ob'')
       (\<lambda>obAddr.
     bind_run
       (case FindFileBlockByOldAddr st obAddr of
          None \<Rightarrow> Some (Inr [])
        | Some ob \<Rightarrow>
            bind_run (GetBlockNameByID mem st ob True) (\<lambda>name.
              Some (Inr [Text ''  Object name: '', Text name, Text [CHR 0x0A]]))) (\<lambda>out.
     bind_run (read_pointer_field mem st collectionObject ''CollectionObject'' ''*next'')
       (\<lambda>nextAddr. Some (Inr (out, nextAddr))))))"

partial_function (option) TraverseCollectionObjects :: "buffer \<Rightarrow> blendExpl \<Rightarrow> 64 word
    \<Rightarrow> token list \<times> FileBlock list \<Rightarrow> (fault + token list \<times> FileBlock list) option" where
  "TraverseCollectionObjects mem st addr acc =
     (case FindFileBlockByOldAddr st addr of
        None \<Rightarrow> Some (Inr acc)
      | Some collectionObject \<Rightarrow>
          (case TraverseCollectionObjects_body mem st collectionObject of
             None \<Rightarrow> None
           | Some (Inl e) \<Rightarrow> Some (Inl e)
           | Some (Inr (out, nextAddr)) \<Rightarrow>
               if nextAddr \<noteq> 0
               then TraverseCollectionObjects mem st nextAddr
                      (fst acc @ out, snd acc @ [collectionObject])
               else Some (Inr (fst acc @ out, snd acc @ [collectionObject]))))"

declare TraverseCollectionObjects.simps [code]

text \<open>
  \<^verbatim>\<open>ExplorePoseChannel\<close> with its loop over the 16 entries of the channel matrix, and
  \<^verbatim>\<open>TraversePoseChannels\<close>.
\<close>

fun print_floats :: "buffer \<Rightarrow> nat \<Rightarrow> nat \<Rightarrow> nat \<Rightarrow> fault + token list" where
  "print_floats mem base i 0 = Inr []"
| "print_floats mem base i (Suc n) =
     (case deref_u32 mem (base + 4 * i) of
        Inl e \<Rightarrow> Inl e
      | Inr x \<Rightarrow>
          (case print_floats mem base (Suc i) n of
             Inl e \<Rightarrow> Inl e
           | Inr rest \<Rightarrow>
               Inr (Float x # Text (if i = 15 then '']'' @ [CHR 0x0A] else '', '') # rest)))"

definition ExplorePoseChannel :: "buffer \<Rightarrow> blendExpl \<Rightarrow> FileBlock
    \<Rightarrow> (fault + token list) option" where
  "ExplorePoseChannel mem st poseChannel =
     bind_run (read_string_field mem st poseChannel ''bPoseChannel'' ''name[64]'')
       (\<lambda>chanNameView.
     bind_run (read_pointer_field mem st poseChannel ''bPoseChannel'' ''*bone'')
       (\<lambda>chanBoneAddr.
     (case FindFileBlockByOldAddr st chanBoneAddr of
        None \<Rightarrow> Some (Inl AssertFailed)
      | Some chanBone \<Rightarrow>
          bind_run (read_string_field mem st chanBone ''Bone'' ''name[64]'') (\<lambda>boneNameView.
          bind_run (GetFieldOffset mem st ''bPoseChannel'' ''chan_mat[4][4]'') (\<lambda>off.
          bind_run (Some (print_floats mem (PeekTypePtr (data poseChannel) off) 0 16)) (\<lambda>mat.
            Some (Inr ([Text (''--------------'' @ [CHR 0x0A]),
                        Text ''Found a bPoseChannel: '', Text chanNameView, Text [CHR 0x0A],
                        Text ''Channel bone name: '', Text boneNameView, Text [CHR 0x0A],
                        Text (''Channel matrix: '' @ [CHR 0x0A] @ ''  ['')] @ mat))))))))"

definition TraversePoseChannels_body :: "buffer \<Rightarrow> blendExpl \<Rightarrow> FileBlock
    \<Rightarrow> (fault + token list \<times> 64 word) option" where
  "TraversePoseChannels_body mem st poseChannel =
     bind_run (assert_struct mem st poseChannel ''bPoseChannel'') (\<lambda>_.
     bind_run (ExplorePoseChannel mem st poseChannel) (\<lambda>out.
     bind_run (read_pointer_field mem st poseChannel ''bPoseChannel'' ''*next'')
       (\<lambda>nextAddr. Some (Inr (out, nextAddr)))))"

partial_function (option) TraversePoseChannels :: "buffer \<Rightarrow> blendExpl \<Rightarrow> 64 word
    \<Rightarrow> token list \<times> FileBlock list \<Rightarrow> (fault + token list \<times> FileBlock list) option" where
  "TraversePoseChannels mem st poseChanAddr acc =
     (case FindFileBlockByOldAddr st poseChanAddr of
        None \<Rightarrow> Some (Inr acc)
      | Some poseChannel \<Rightarrow>
          (case TraversePoseChannels_body mem st poseChannel of
             None \<Rightarrow> None
           | Some (Inl e) \<Rightarrow> Some (Inl e)
           | Some (Inr (out, nextAddr)) \<Rightarrow>
               if nextAddr \<noteq> 0
               then TraversePoseChannels mem st nextAddr
                      (fst acc @ out, snd acc @ [poseChannel])
               else Some (Inr (fst acc @ out, snd acc @ [poseChannel]))))"

declare TraversePoseChannels.simps [code]

section \<open>Vocabulary of the properties\<close>

text \<open>
  An array suffix is a sequence of bracketed digit strings; \<open>dim_value\<close> is the number a
  digit string denotes in a \<^verbatim>\<open>size_t\<close>.
\<close>

definition dim_value :: "string \<Rightarrow> 64 word" where
  "dim_value ds = foldl (\<lambda>num c. num * 10 + (of_char c - 48)) 0 ds"

definition bracketed :: "string \<Rightarrow> string" where
  "bracketed ds = ''['' @ ds @ '']''"

text \<open>
  The name and the declared length of a struct, and the name and the size of a field, as
  the lookups read them: through the type and name tables and the strings in the buffer.
\<close>

definition StructName :: "buffer \<Rightarrow> blendExpl \<Rightarrow> StructDesc \<Rightarrow> fault + string" where
  "StructName mem st sd =
     (case at_vec (m_typeArray st) (unat (s_typeIndex sd)) of
        Inl e \<Rightarrow> Inl e
      | Inr ti \<Rightarrow> AsString mem (ti_type ti))"

definition StructLength :: "blendExpl \<Rightarrow> StructDesc \<Rightarrow> 64 word" where
  "StructLength st sd = ucast (ti_length (m_typeArray st ! unat (s_typeIndex sd)))"

definition FieldName :: "buffer \<Rightarrow> blendExpl \<Rightarrow> FieldDesc \<Rightarrow> fault + string" where
  "FieldName mem st fd =
     (case at_vec (m_nameArray st) (unat (f_nameIndex fd)) of
        Inl e \<Rightarrow> Inl e
      | Inr nameSpan \<Rightarrow> AsString mem nameSpan)"

definition FieldSize :: "buffer \<Rightarrow> blendExpl \<Rightarrow> FieldDesc \<Rightarrow> (fault + 64 word) option" where
  "FieldSize mem st fd =
     (case FieldName mem st fd of
        Inl e \<Rightarrow> Some (Inl e)
      | Inr fieldName \<Rightarrow>
          (case at_vec (m_typeArray st) (unat (f_typeIndex fd)) of
             Inl e \<Rightarrow> Some (Inl e)
           | Inr ti \<Rightarrow> GetFieldSizeByName fieldName (ucast (ti_length ti))))"

definition field_bytes :: "buffer \<Rightarrow> blendExpl \<Rightarrow> FieldDesc \<Rightarrow> 64 word" where
  "field_bytes mem st fd = (case FieldSize mem st fd of Some (Inr sz) \<Rightarrow> sz | _ \<Rightarrow> 0)"

definition structs_named :: "buffer \<Rightarrow> blendExpl \<Rightarrow> bool" where
  "structs_named mem st = (\<forall>sd\<in>set (m_structArray st). \<exists>n. StructName mem st sd = Inr n)"

definition fields_resolved :: "buffer \<Rightarrow> blendExpl \<Rightarrow> FieldDesc list \<Rightarrow> bool" where
  "fields_resolved mem st fs =
     (\<forall>fd\<in>set fs. \<exists>n sz. FieldName mem st fd = Inr n \<and> FieldSize mem st fd = Some (Inr sz))"

definition find_struct :: "buffer \<Rightarrow> blendExpl \<Rightarrow> string \<Rightarrow> StructDesc option" where
  "find_struct mem st S = find (\<lambda>sd. StructName mem st sd = Inr S) (m_structArray st)"

text \<open>
  A struct as the program that writes these files lays it out. A field name is a
  declarator: a stem without \<^verbatim>\<open>'['\<close> followed by array dimensions, each a bracketed
  string of decimal digits; \<open>decimal\<close> is the number such a string denotes. The field
  occupies the pointer width 8 when the stem starts with \<^verbatim>\<open>'*'\<close> or \<^verbatim>\<open>"(*"\<close>, and the
  length of its type otherwise, times its dimensions. \<open>laid_out\<close> says of a struct
  record and a list of declarators (pairs of a stem and its dimensions) that the fields
  of the record have these names, in this order, and types of the type table, that every
  field occupies at least one byte, that the names are distinct, and that the declared
  length of the struct is the sum of the bytes of its fields: the fields follow one
  another without gaps and without overlaps.
\<close>

definition decimal :: "string \<Rightarrow> nat" where
  "decimal ds = foldl (\<lambda>n c. n * 10 + (of_char c - 48)) 0 ds"

definition declarator :: "string \<times> string list \<Rightarrow> string" where
  "declarator d = fst d @ concat (map bracketed (snd d))"

definition declared_bytes :: "nat \<Rightarrow> string \<times> string list \<Rightarrow> nat" where
  "declared_bytes L d =
     (if starts_with (fst d) ''*'' \<or> starts_with (fst d) ''(*'' then 8 else L)
       * prod_list (map decimal (snd d))"

definition TypeLength :: "blendExpl \<Rightarrow> FieldDesc \<Rightarrow> nat" where
  "TypeLength st fd = unat (ti_length (m_typeArray st ! unat (f_typeIndex fd)))"

definition declares :: "buffer \<Rightarrow> blendExpl \<Rightarrow> FieldDesc \<Rightarrow> string \<times> string list \<Rightarrow> bool" where
  "declares mem st fd d =
     (FieldName mem st fd = Inr (declarator d)
      \<and> unat (f_typeIndex fd) < length (m_typeArray st)
      \<and> CHR ''['' \<notin> set (fst d)
      \<and> (\<forall>ds\<in>set (snd d). \<forall>c\<in>set ds. isdigit c)
      \<and> 0 < declared_bytes (TypeLength st fd) d)"

definition laid_out :: "buffer \<Rightarrow> blendExpl \<Rightarrow> StructDesc \<Rightarrow> (string \<times> string list) list
    \<Rightarrow> bool" where
  "laid_out mem st sd decls =
     (list_all2 (declares mem st) (s_fields sd) decls
      \<and> distinct (map declarator decls)
      \<and> sum_list (map2 (\<lambda>fd d. declared_bytes (TypeLength st fd) d) (s_fields sd) decls)
          = unat (StructLength st sd))"


section \<open>Example files\<close>

text \<open>
  \<open>demo_file\<close>: the signature \<^verbatim>\<open>BLENDER-v300\<close>, a schema block declaring
  \<^verbatim>\<open>struct Foo { int a; int b[2]; }\<close> with a declared length of 12, a block \<^verbatim>\<open>OB\<close> at
  the original address \<open>0x1000\<close> followed by one \<^verbatim>\<open>DATA\<close> block, a block \<^verbatim>\<open>ME\<close> with
  the same original address, and the end block. \<open>demo_state\<close> is what \<^verbatim>\<open>ParseFile\<close>
  builds from it.

  \<open>tail_file\<close>: \<open>demo_file\<close> with one more block, tagged \<^verbatim>\<open>ME\<close>, behind the end block.

  \<open>stray_file\<close>: the signature, the schema block of \<open>demo_file\<close> with the type index 9
  in its struct record (the type table has two entries), and the end block.
\<close>

definition demo_file :: buffer where
  "demo_file = \<lparr>buf_base = 4096, buf_bytes =
      [66, 76, 69, 78, 68, 69, 82, 45, 118, 51, 48, 48, 68, 78, 65, 49, 64, 0, 0, 0, 0,
       0, 0, 0, 0, 0, 0, 0, 0, 0, 0, 0, 1, 0, 0, 0, 83, 68, 78, 65, 78, 65, 77, 69, 2,
       0, 0, 0, 97, 0, 98, 91, 50, 93, 0, 0, 84, 89, 80, 69, 2, 0, 0, 0, 105, 110, 116,
       0, 70, 111, 111, 0, 84, 76, 69, 78, 4, 0, 12, 0, 83, 84, 82, 67, 1, 0, 0, 0, 1,
       0, 2, 0, 0, 0, 0, 0, 0, 0, 1, 0, 79, 66, 0, 0, 12, 0, 0, 0, 0, 16, 0, 0, 0, 0, 0,
       0, 0, 0, 0, 0, 1, 0, 0, 0, 5, 0, 0, 0, 1, 0, 0, 0, 2, 0, 0, 0, 68, 65, 84, 65, 4,
       0, 0, 0, 0, 32, 0, 0, 0, 0, 0, 0, 0, 0, 0, 0, 1, 0, 0, 0, 7, 0, 0, 0, 77, 69, 0,
       0, 0, 0, 0, 0, 0, 16, 0, 0, 0, 0, 0, 0, 0, 0, 0, 0, 1, 0, 0, 0, 69, 78, 68, 66,
       0, 0, 0, 0, 0, 0, 0, 0, 0, 0, 0, 0, 0, 0, 0, 0, 1, 0, 0, 0]\<rparr>"

definition demo_state :: blendExpl where
  "demo_state =
     \<lparr>m_fileSpan = \<lparr>span_begin = 4096, span_end = 4308\<rparr>,
      m_blockArray =
        [FileBlock
           \<lparr>d_code = [68, 78, 65, 49], d_size = 64, d_oldMemoryAddress = 0,
            d_sdnaIndex = 0, d_count = 1\<rparr>
           \<lparr>span_begin = 4132, span_end = 4196\<rparr> [] 12,
         FileBlock
           \<lparr>d_code = [79, 66, 0, 0], d_size = 12, d_oldMemoryAddress = 4096,
            d_sdnaIndex = 0, d_count = 1\<rparr>
           \<lparr>span_begin = 4220, span_end = 4232\<rparr>
           [FileBlock
              \<lparr>d_code = [68, 65, 84, 65], d_size = 4, d_oldMemoryAddress = 8192,
               d_sdnaIndex = 0, d_count = 1\<rparr>
              \<lparr>span_begin = 4256, span_end = 4260\<rparr> [] 136]
           100,
         FileBlock
           \<lparr>d_code = [68, 65, 84, 65], d_size = 4, d_oldMemoryAddress = 8192,
            d_sdnaIndex = 0, d_count = 1\<rparr>
           \<lparr>span_begin = 4256, span_end = 4260\<rparr> [] 136,
         FileBlock
           \<lparr>d_code = [77, 69, 0, 0], d_size = 0, d_oldMemoryAddress = 4096,
            d_sdnaIndex = 0, d_count = 1\<rparr>
           \<lparr>span_begin = 4284, span_end = 4284\<rparr> [] 164,
         FileBlock
           \<lparr>d_code = [69, 78, 68, 66], d_size = 0, d_oldMemoryAddress = 0,
            d_sdnaIndex = 0, d_count = 1\<rparr>
           \<lparr>span_begin = 4308, span_end = 4308\<rparr> [] 188],
      m_nameArray =
        [\<lparr>span_begin = 4144, span_end = 4146\<rparr>, \<lparr>span_begin = 4146, span_end = 4151\<rparr>],
      m_typeArray =
        [\<lparr>ti_type = \<lparr>span_begin = 4160, span_end = 4164\<rparr>, ti_length = 4\<rparr>,
         \<lparr>ti_type = \<lparr>span_begin = 4164, span_end = 4168\<rparr>, ti_length = 12\<rparr>],
      m_structArray =
        [\<lparr>s_typeIndex = 1,
          s_fields = [\<lparr>f_typeIndex = 0, f_nameIndex = 0\<rparr>,
                      \<lparr>f_typeIndex = 0, f_nameIndex = 1\<rparr>]\<rparr>]\<rparr>"



definition stray_file :: buffer where
  "stray_file = \<lparr>buf_base = 4096, buf_bytes =
      [66, 76, 69, 78, 68, 69, 82, 45, 118, 51, 48, 48, 68, 78, 65, 49, 64, 0, 0, 0, 0,
       0, 0, 0, 0, 0, 0, 0, 0, 0, 0, 0, 1, 0, 0, 0, 83, 68, 78, 65, 78, 65, 77, 69, 2,
       0, 0, 0, 97, 0, 98, 91, 50, 93, 0, 0, 84, 89, 80, 69, 2, 0, 0, 0, 105, 110, 116,
       0, 70, 111, 111, 0, 84, 76, 69, 78, 4, 0, 12, 0, 83, 84, 82, 67, 1, 0, 0, 0, 9,
       0, 2, 0, 0, 0, 0, 0, 0, 0, 1, 0, 69, 78, 68, 66, 0, 0, 0, 0, 0, 0, 0, 0, 0, 0, 0,
       0, 0, 0, 0, 0, 1, 0, 0, 0]\<rparr>"

definition stray_state :: blendExpl where
  "stray_state =
     \<lparr>m_fileSpan = \<lparr>span_begin = 4096, span_end = 4220\<rparr>,
      m_blockArray =
        [FileBlock
           \<lparr>d_code = [68, 78, 65, 49], d_size = 64, d_oldMemoryAddress = 0,
            d_sdnaIndex = 0, d_count = 1\<rparr>
           \<lparr>span_begin = 4132, span_end = 4196\<rparr> [] 12,
         FileBlock
           \<lparr>d_code = [69, 78, 68, 66], d_size = 0, d_oldMemoryAddress = 0,
            d_sdnaIndex = 0, d_count = 1\<rparr>
           \<lparr>span_begin = 4220, span_end = 4220\<rparr> [] 100],
      m_nameArray =
        [\<lparr>span_begin = 4144, span_end = 4146\<rparr>, \<lparr>span_begin = 4146, span_end = 4151\<rparr>],
      m_typeArray =
        [\<lparr>ti_type = \<lparr>span_begin = 4160, span_end = 4164\<rparr>, ti_length = 4\<rparr>,
         \<lparr>ti_type = \<lparr>span_begin = 4164, span_end = 4168\<rparr>, ti_length = 12\<rparr>],
      m_structArray =
        [\<lparr>s_typeIndex = 9,
          s_fields = [\<lparr>f_typeIndex = 0, f_nameIndex = 0\<rparr>,
                      \<lparr>f_typeIndex = 0, f_nameIndex = 1\<rparr>]\<rparr>]\<rparr>"


section \<open>Vocabulary of the block loop\<close>

text \<open>
  One pass of the block loop with the span at \<open>ms\<close> and the header \<open>d\<close> read there:
  \<open>block_at\<close> is the \<^verbatim>\<open>FileBlock\<close> it builds, \<open>next_span\<close> the span after
  \<^verbatim>\<open>Advance(size)\<close> and \<^verbatim>\<open>Align4()\<close>, \<open>push_block\<close> the \<^verbatim>\<open>emplace_back\<close> on
  \<^verbatim>\<open>m_blockArray\<close>, and \<open>push_child\<close> the \<^verbatim>\<open>emplace_back\<close> on the children of the entry
  at \<^verbatim>\<open>parentId\<close>.
\<close>

definition block_at :: "blendExpl \<Rightarrow> MemorySpan \<Rightarrow> FileBlockDesc64 \<Rightarrow> FileBlock" where
  "block_at st ms d =
     FileBlock d
       \<lparr>span_begin = span_begin ms + 24, span_end = span_begin ms + 24 + unat (d_size d)\<rparr>
       []
       (int (span_begin ms) - int (span_begin (m_fileSpan st)))"

definition next_span :: "MemorySpan \<Rightarrow> FileBlockDesc64 \<Rightarrow> MemorySpan" where
  "next_span ms d = Align4 (Advance (Advance ms 24) (unat (d_size d)))"

definition push_block :: "blendExpl \<Rightarrow> FileBlock \<Rightarrow> blendExpl" where
  "push_block st block = st\<lparr>m_blockArray := m_blockArray st @ [block]\<rparr>"

definition push_child :: "blendExpl \<Rightarrow> nat \<Rightarrow> FileBlock \<Rightarrow> blendExpl" where
  "push_child st p block =
     st\<lparr>m_blockArray := (m_blockArray st)[p := emplace_child (m_blockArray st ! p) block]\<rparr>"

definition is_data :: "FileBlock \<Rightarrow> bool" where
  "is_data b = Identify (d_code (desc b)) BlockDATA 4"

definition is_end_mark :: "FileBlock \<Rightarrow> bool" where
  "is_end_mark b = Identify (d_code (desc b)) EOBMark 4"

text \<open>
  \<open>grouped\<close>: the array starts with a block that is not a \<^verbatim>\<open>DATA\<close> block, the children of
  that block are exactly the \<^verbatim>\<open>DATA\<close> blocks that follow it up to the next block of
  another kind, these \<^verbatim>\<open>DATA\<close> blocks have no children, and the rest of the array is
  grouped in the same way.
\<close>

function grouped :: "FileBlock list \<Rightarrow> bool" where
  "grouped [] = True"
| "grouped (b # bs) =
     (\<not> is_data b
      \<and> childBlocks b = takeWhile is_data bs
      \<and> (\<forall>k\<in>set (takeWhile is_data bs). childBlocks k = [])
      \<and> grouped (dropWhile is_data bs))"
  by pat_completeness auto
termination
  by (relation "measure length") (auto simp: length_dropWhile_le less_Suc_eq_le)

text \<open>
  The same shape written as a list of groups, a parent with its \<^verbatim>\<open>DATA\<close> blocks, which
  is what the loop maintains: \<^verbatim>\<open>parentId\<close> is the position of the last parent.
\<close>

definition with_children :: "FileBlock \<Rightarrow> FileBlock list \<Rightarrow> FileBlock" where
  "with_children b ks = FileBlock (desc b) (data b) ks (fileOffset b)"

definition flatten_groups :: "(FileBlock \<times> FileBlock list) list \<Rightarrow> FileBlock list" where
  "flatten_groups gs = concat (map (\<lambda>(parent, kids). with_children parent kids # kids) gs)"

definition groups_ok :: "(FileBlock \<times> FileBlock list) list \<Rightarrow> bool" where
  "groups_ok gs =
     (\<forall>(parent, kids)\<in>set gs. \<not> is_data parent
         \<and> (\<forall>k\<in>set kids. is_data k \<and> childBlocks k = []))"

definition group_inv :: "nat option \<Rightarrow> blendExpl \<Rightarrow> bool" where
  "group_inv pid st =
     (\<exists>gs. m_blockArray st = flatten_groups gs \<and> groups_ok gs
        \<and> pid = (if gs = [] then None else Some (length (flatten_groups (butlast gs)))))"

text \<open>
  The file offsets recorded so far lie before the current position and increase
  strictly along the array.
\<close>

definition offset_inv :: "MemorySpan \<Rightarrow> MemorySpan \<Rightarrow> blendExpl \<Rightarrow> bool" where
  "offset_inv fs ms st =
     (m_fileSpan st = fs
      \<and> (\<forall>x\<in>set (map fileOffset (m_blockArray st)). x < int (span_begin ms) - int (span_begin fs))
      \<and> sorted_wrt (<) (map fileOffset (m_blockArray st)))"

text \<open>
  The blocks as they lie in the buffer from a position on: a header is read where the
  span begins, the next one where the block, padded to a multiple of four, ends; the
  list ends where the span is used up or no header can be read. \<open>chunk_span\<close> is the
  span behind the 12 bytes of the signature. \<open>upto_end_mark\<close> cuts a list of blocks
  behind its first end block, and \<open>bare\<close> is a block without its children.
\<close>

definition chunk_span :: "buffer \<Rightarrow> MemorySpan" where
  "chunk_span mem = Advance (m_fileSpan (start_state mem)) 12"

function file_chunks :: "buffer \<Rightarrow> MemorySpan \<Rightarrow> FileBlock list" where
  "file_chunks mem ms =
     (if Empty ms then []
      else case deref_FileBlockDesc64 mem (span_begin ms) of
             Inl e \<Rightarrow> []
           | Inr d \<Rightarrow> block_at (start_state mem) ms d # file_chunks mem (next_span ms d))"
  by pat_completeness auto
termination
  by (relation "measure (\<lambda>(mem, ms). span_end ms - span_begin ms)")
     (auto simp: Empty_def next_span_def Advance_def Align4_def Let_def)

declare file_chunks.simps [simp del]

definition upto_end_mark :: "FileBlock list \<Rightarrow> FileBlock list" where
  "upto_end_mark bs =
     takeWhile (\<lambda>b. \<not> is_end_mark b) bs @ take 1 (dropWhile (\<lambda>b. \<not> is_end_mark b) bs)"

definition bare :: "FileBlock \<Rightarrow> FileBlock" where
  "bare b = with_children b []"

text \<open>
  What the block loop maintains: the array, children aside, followed by the blocks still
  ahead up to the first end block is a fixed list, and the array holds no end block.
\<close>

definition chunk_inv :: "buffer \<Rightarrow> FileBlock list \<Rightarrow> MemorySpan \<Rightarrow> blendExpl \<Rightarrow> bool" where
  "chunk_inv mem cs ms st =
     (m_fileSpan st = m_fileSpan (start_state mem)
      \<and> (\<forall>b\<in>set (m_blockArray st). \<not> is_end_mark b)
      \<and> map bare (m_blockArray st) @ upto_end_mark (file_chunks mem ms) = cs)"



section \<open>Vocabulary of the walks\<close>

text \<open>
  A chain from the address \<open>a\<close>: the blocks found by following the addresses, each
  worked on without a fault, the last one with a zero address in \<^verbatim>\<open>*next\<close>. \<open>printed\<close> is
  what the body prints for a block.
\<close>

fun next_chain :: "(FileBlock \<Rightarrow> (fault + token list \<times> 64 word) option) \<Rightarrow> blendExpl
    \<Rightarrow> 64 word \<Rightarrow> FileBlock list \<Rightarrow> bool" where
  "next_chain body st a [] = False"
| "next_chain body st a [b] =
     (FindFileBlockByOldAddr st a = Some b \<and> (\<exists>out. body b = Some (Inr (out, 0))))"
| "next_chain body st a (b # c # bs) =
     (FindFileBlockByOldAddr st a = Some b
      \<and> (\<exists>out n. body b = Some (Inr (out, n)) \<and> n \<noteq> 0 \<and> next_chain body st n (c # bs)))"

definition printed :: "(FileBlock \<Rightarrow> (fault + token list \<times> 64 word) option) \<Rightarrow> FileBlock
    \<Rightarrow> token list" where
  "printed body b = (case body b of Some (Inr (out, n)) \<Rightarrow> out | _ \<Rightarrow> [])"

text \<open>
  \<open>chain_file\<close>: a schema with \<^verbatim>\<open>CollectionObject\<close>, \<^verbatim>\<open>bPoseChannel\<close>, \<^verbatim>\<open>Bone\<close> and
  \<^verbatim>\<open>ID\<close>, an object block named \<^verbatim>\<open>OBCube\<close>, two collection objects linked by
  \<^verbatim>\<open>*next\<close> (the first refers to the object), two pose channels linked by \<^verbatim>\<open>*next\<close>,
  and the bone both refer to. \<open>chain_state\<close> is what \<^verbatim>\<open>ParseFile\<close> builds from it.
\<close>

definition chain_file :: buffer where
  "chain_file = \<lparr>buf_base = 4096, buf_bytes =
      [66, 76, 69, 78, 68, 69, 82, 45, 118, 51, 48, 48, 68, 78, 65, 49, 212, 0, 0, 0, 0,
       0, 0, 0, 0, 0, 0, 0, 0, 0, 0, 0, 1, 0, 0, 0, 83, 68, 78, 65, 78, 65, 77, 69, 7,
       0, 0, 0, 42, 110, 101, 120, 116, 0, 42, 112, 114, 101, 118, 0, 42, 111, 98, 0,
       42, 98, 111, 110, 101, 0, 110, 97, 109, 101, 91, 54, 52, 93, 0, 99, 104, 97, 110,
       95, 109, 97, 116, 91, 52, 93, 91, 52, 93, 0, 110, 97, 109, 101, 91, 54, 54, 93,
       0, 0, 84, 89, 80, 69, 7, 0, 0, 0, 99, 104, 97, 114, 0, 102, 108, 111, 97, 116, 0,
       67, 111, 108, 108, 101, 99, 116, 105, 111, 110, 79, 98, 106, 101, 99, 116, 0, 79,
       98, 106, 101, 99, 116, 0, 98, 80, 111, 115, 101, 67, 104, 97, 110, 110, 101, 108,
       0, 66, 111, 110, 101, 0, 73, 68, 0, 84, 76, 69, 78, 1, 0, 4, 0, 24, 0, 0, 0, 144,
       0, 64, 0, 66, 0, 0, 0, 83, 84, 82, 67, 4, 0, 0, 0, 2, 0, 3, 0, 2, 0, 0, 0, 2, 0,
       1, 0, 3, 0, 2, 0, 4, 0, 4, 0, 4, 0, 0, 0, 5, 0, 3, 0, 0, 0, 4, 0, 1, 0, 5, 0, 5,
       0, 1, 0, 0, 0, 4, 0, 6, 0, 1, 0, 0, 0, 6, 0, 79, 66, 0, 0, 7, 0, 0, 0, 0, 80, 0,
       0, 0, 0, 0, 0, 3, 0, 0, 0, 1, 0, 0, 0, 79, 66, 67, 117, 98, 101, 0, 0, 68, 65,
       84, 65, 24, 0, 0, 0, 0, 48, 0, 0, 0, 0, 0, 0, 0, 0, 0, 0, 1, 0, 0, 0, 64, 48, 0,
       0, 0, 0, 0, 0, 0, 0, 0, 0, 0, 0, 0, 0, 0, 80, 0, 0, 0, 0, 0, 0, 68, 65, 84, 65,
       24, 0, 0, 0, 64, 48, 0, 0, 0, 0, 0, 0, 0, 0, 0, 0, 1, 0, 0, 0, 0, 0, 0, 0, 0, 0,
       0, 0, 0, 48, 0, 0, 0, 0, 0, 0, 0, 0, 0, 0, 0, 0, 0, 0, 68, 65, 84, 65, 144, 0, 0,
       0, 0, 64, 0, 0, 0, 0, 0, 0, 1, 0, 0, 0, 1, 0, 0, 0, 0, 65, 0, 0, 0, 0, 0, 0, 0,
       96, 0, 0, 0, 0, 0, 0, 114, 111, 111, 116, 0, 0, 0, 0, 0, 0, 0, 0, 0, 0, 0, 0, 0,
       0, 0, 0, 0, 0, 0, 0, 0, 0, 0, 0, 0, 0, 0, 0, 0, 0, 0, 0, 0, 0, 0, 0, 0, 0, 0, 0,
       0, 0, 0, 0, 0, 0, 0, 0, 0, 0, 0, 0, 0, 0, 0, 0, 0, 0, 0, 0, 0, 0, 128, 63, 0, 0,
       0, 0, 0, 0, 0, 0, 0, 0, 0, 0, 0, 0, 0, 0, 0, 0, 128, 63, 0, 0, 0, 0, 0, 0, 0, 0,
       0, 0, 0, 0, 0, 0, 0, 0, 0, 0, 128, 63, 0, 0, 0, 0, 0, 0, 0, 0, 0, 0, 0, 0, 0, 0,
       0, 0, 0, 0, 128, 63, 68, 65, 84, 65, 144, 0, 0, 0, 0, 65, 0, 0, 0, 0, 0, 0, 1, 0,
       0, 0, 1, 0, 0, 0, 0, 0, 0, 0, 0, 0, 0, 0, 0, 96, 0, 0, 0, 0, 0, 0, 97, 114, 109,
       0, 0, 0, 0, 0, 0, 0, 0, 0, 0, 0, 0, 0, 0, 0, 0, 0, 0, 0, 0, 0, 0, 0, 0, 0, 0, 0,
       0, 0, 0, 0, 0, 0, 0, 0, 0, 0, 0, 0, 0, 0, 0, 0, 0, 0, 0, 0, 0, 0, 0, 0, 0, 0, 0,
       0, 0, 0, 0, 0, 0, 0, 0, 0, 128, 63, 0, 0, 0, 0, 0, 0, 0, 0, 0, 0, 0, 0, 0, 0, 0,
       0, 0, 0, 128, 63, 0, 0, 0, 0, 0, 0, 0, 0, 0, 0, 0, 0, 0, 0, 0, 0, 0, 0, 128, 63,
       0, 0, 0, 0, 0, 0, 0, 0, 0, 0, 0, 0, 0, 0, 0, 0, 0, 0, 128, 63, 68, 65, 84, 65,
       64, 0, 0, 0, 0, 96, 0, 0, 0, 0, 0, 0, 2, 0, 0, 0, 1, 0, 0, 0, 66, 111, 110, 101,
       0, 0, 0, 0, 0, 0, 0, 0, 0, 0, 0, 0, 0, 0, 0, 0, 0, 0, 0, 0, 0, 0, 0, 0, 0, 0, 0,
       0, 0, 0, 0, 0, 0, 0, 0, 0, 0, 0, 0, 0, 0, 0, 0, 0, 0, 0, 0, 0, 0, 0, 0, 0, 0, 0,
       0, 0, 0, 0, 0, 0, 69, 78, 68, 66, 0, 0, 0, 0, 0, 0, 0, 0, 0, 0, 0, 0, 0, 0, 0, 0,
       1, 0, 0, 0]\<rparr>"

definition chain_state :: blendExpl where
  "chain_state =
     \<lparr>m_fileSpan = \<lparr>span_begin = 4096, span_end = 4920\<rparr>,
        m_blockArray =
          [FileBlock
            \<lparr>d_code = [68, 78, 65, 49], d_size = 212,
               d_oldMemoryAddress = 0, d_sdnaIndex = 0, d_count = 1\<rparr>
            \<lparr>span_begin = 4132, span_end = 4344\<rparr> [] 12,
           FileBlock
            \<lparr>d_code = [79, 66, 0, 0], d_size = 7,
               d_oldMemoryAddress = 20480, d_sdnaIndex = 3, d_count = 1\<rparr>
            \<lparr>span_begin = 4368, span_end = 4375\<rparr>
            [FileBlock
              \<lparr>d_code = [68, 65, 84, 65], d_size = 24,
                 d_oldMemoryAddress = 12288, d_sdnaIndex = 0, d_count = 1\<rparr>
              \<lparr>span_begin = 4400, span_end = 4424\<rparr> [] 280,
             FileBlock
              \<lparr>d_code = [68, 65, 84, 65], d_size = 24,
                 d_oldMemoryAddress = 12352, d_sdnaIndex = 0, d_count = 1\<rparr>
              \<lparr>span_begin = 4448, span_end = 4472\<rparr> [] 328,
             FileBlock
              \<lparr>d_code = [68, 65, 84, 65], d_size = 144,
                 d_oldMemoryAddress = 16384, d_sdnaIndex = 1, d_count = 1\<rparr>
              \<lparr>span_begin = 4496, span_end = 4640\<rparr> [] 376,
             FileBlock
              \<lparr>d_code = [68, 65, 84, 65], d_size = 144,
                 d_oldMemoryAddress = 16640, d_sdnaIndex = 1, d_count = 1\<rparr>
              \<lparr>span_begin = 4664, span_end = 4808\<rparr> [] 544,
             FileBlock
              \<lparr>d_code = [68, 65, 84, 65], d_size = 64,
                 d_oldMemoryAddress = 24576, d_sdnaIndex = 2, d_count = 1\<rparr>
              \<lparr>span_begin = 4832, span_end = 4896\<rparr> [] 712]
            248,
           FileBlock
            \<lparr>d_code = [68, 65, 84, 65], d_size = 24,
               d_oldMemoryAddress = 12288, d_sdnaIndex = 0, d_count = 1\<rparr>
            \<lparr>span_begin = 4400, span_end = 4424\<rparr> [] 280,
           FileBlock
            \<lparr>d_code = [68, 65, 84, 65], d_size = 24,
               d_oldMemoryAddress = 12352, d_sdnaIndex = 0, d_count = 1\<rparr>
            \<lparr>span_begin = 4448, span_end = 4472\<rparr> [] 328,
           FileBlock
            \<lparr>d_code = [68, 65, 84, 65], d_size = 144,
               d_oldMemoryAddress = 16384, d_sdnaIndex = 1, d_count = 1\<rparr>
            \<lparr>span_begin = 4496, span_end = 4640\<rparr> [] 376,
           FileBlock
            \<lparr>d_code = [68, 65, 84, 65], d_size = 144,
               d_oldMemoryAddress = 16640, d_sdnaIndex = 1, d_count = 1\<rparr>
            \<lparr>span_begin = 4664, span_end = 4808\<rparr> [] 544,
           FileBlock
            \<lparr>d_code = [68, 65, 84, 65], d_size = 64,
               d_oldMemoryAddress = 24576, d_sdnaIndex = 2, d_count = 1\<rparr>
            \<lparr>span_begin = 4832, span_end = 4896\<rparr> [] 712,
           FileBlock
            \<lparr>d_code = [69, 78, 68, 66], d_size = 0, d_oldMemoryAddress = 0,
               d_sdnaIndex = 0, d_count = 1\<rparr>
            \<lparr>span_begin = 4920, span_end = 4920\<rparr> [] 800],
        m_nameArray =
          [\<lparr>span_begin = 4144, span_end = 4150\<rparr>,
           \<lparr>span_begin = 4150, span_end = 4156\<rparr>,
           \<lparr>span_begin = 4156, span_end = 4160\<rparr>,
           \<lparr>span_begin = 4160, span_end = 4166\<rparr>,
           \<lparr>span_begin = 4166, span_end = 4175\<rparr>,
           \<lparr>span_begin = 4175, span_end = 4190\<rparr>,
           \<lparr>span_begin = 4190, span_end = 4199\<rparr>],
        m_typeArray =
          [\<lparr>ti_type = \<lparr>span_begin = 4208, span_end = 4213\<rparr>, ti_length = 1\<rparr>,
           \<lparr>ti_type = \<lparr>span_begin = 4213, span_end = 4219\<rparr>, ti_length = 4\<rparr>,
           \<lparr>ti_type = \<lparr>span_begin = 4219, span_end = 4236\<rparr>,
              ti_length = 24\<rparr>,
           \<lparr>ti_type = \<lparr>span_begin = 4236, span_end = 4243\<rparr>, ti_length = 0\<rparr>,
           \<lparr>ti_type = \<lparr>span_begin = 4243, span_end = 4256\<rparr>,
              ti_length = 144\<rparr>,
           \<lparr>ti_type = \<lparr>span_begin = 4256, span_end = 4261\<rparr>,
              ti_length = 64\<rparr>,
           \<lparr>ti_type = \<lparr>span_begin = 4261, span_end = 4264\<rparr>,
              ti_length = 66\<rparr>],
        m_structArray =
          [\<lparr>s_typeIndex = 2,
              s_fields =
                [\<lparr>f_typeIndex = 2, f_nameIndex = 0\<rparr>,
                 \<lparr>f_typeIndex = 2, f_nameIndex = 1\<rparr>,
                 \<lparr>f_typeIndex = 3, f_nameIndex = 2\<rparr>]\<rparr>,
           \<lparr>s_typeIndex = 4,
              s_fields =
                [\<lparr>f_typeIndex = 4, f_nameIndex = 0\<rparr>,
                 \<lparr>f_typeIndex = 5, f_nameIndex = 3\<rparr>,
                 \<lparr>f_typeIndex = 0, f_nameIndex = 4\<rparr>,
                 \<lparr>f_typeIndex = 1, f_nameIndex = 5\<rparr>]\<rparr>,
           \<lparr>s_typeIndex = 5,
              s_fields = [\<lparr>f_typeIndex = 0, f_nameIndex = 4\<rparr>]\<rparr>,
           \<lparr>s_typeIndex = 6,
              s_fields = [\<lparr>f_typeIndex = 0, f_nameIndex = 6\<rparr>]\<rparr>]\<rparr>"

text \<open>
  \<open>loose_file\<close>: \<open>chain_file\<close> with a zero address in \<^verbatim>\<open>*bone\<close> of the first pose channel
  (the byte at the file offset 409); the headers are the same, and so is what
  \<^verbatim>\<open>ParseFile\<close> builds.
\<close>

definition loose_file :: buffer where
  "loose_file = \<lparr>buf_base = 4096, buf_bytes =
      [66, 76, 69, 78, 68, 69, 82, 45, 118, 51, 48, 48, 68, 78, 65, 49, 212, 0, 0, 0, 0,
       0, 0, 0, 0, 0, 0, 0, 0, 0, 0, 0, 1, 0, 0, 0, 83, 68, 78, 65, 78, 65, 77, 69, 7, 0,
       0, 0, 42, 110, 101, 120, 116, 0, 42, 112, 114, 101, 118, 0, 42, 111, 98, 0, 42,
       98, 111, 110, 101, 0, 110, 97, 109, 101, 91, 54, 52, 93, 0, 99, 104, 97, 110, 95,
       109, 97, 116, 91, 52, 93, 91, 52, 93, 0, 110, 97, 109, 101, 91, 54, 54, 93, 0, 0,
       84, 89, 80, 69, 7, 0, 0, 0, 99, 104, 97, 114, 0, 102, 108, 111, 97, 116, 0, 67,
       111, 108, 108, 101, 99, 116, 105, 111, 110, 79, 98, 106, 101, 99, 116, 0, 79, 98,
       106, 101, 99, 116, 0, 98, 80, 111, 115, 101, 67, 104, 97, 110, 110, 101, 108, 0,
       66, 111, 110, 101, 0, 73, 68, 0, 84, 76, 69, 78, 1, 0, 4, 0, 24, 0, 0, 0, 144, 0,
       64, 0, 66, 0, 0, 0, 83, 84, 82, 67, 4, 0, 0, 0, 2, 0, 3, 0, 2, 0, 0, 0, 2, 0, 1,
       0, 3, 0, 2, 0, 4, 0, 4, 0, 4, 0, 0, 0, 5, 0, 3, 0, 0, 0, 4, 0, 1, 0, 5, 0, 5, 0,
       1, 0, 0, 0, 4, 0, 6, 0, 1, 0, 0, 0, 6, 0, 79, 66, 0, 0, 7, 0, 0, 0, 0, 80, 0, 0,
       0, 0, 0, 0, 3, 0, 0, 0, 1, 0, 0, 0, 79, 66, 67, 117, 98, 101, 0, 0, 68, 65, 84,
       65, 24, 0, 0, 0, 0, 48, 0, 0, 0, 0, 0, 0, 0, 0, 0, 0, 1, 0, 0, 0, 64, 48, 0, 0, 0,
       0, 0, 0, 0, 0, 0, 0, 0, 0, 0, 0, 0, 80, 0, 0, 0, 0, 0, 0, 68, 65, 84, 65, 24, 0,
       0, 0, 64, 48, 0, 0, 0, 0, 0, 0, 0, 0, 0, 0, 1, 0, 0, 0, 0, 0, 0, 0, 0, 0, 0, 0, 0,
       48, 0, 0, 0, 0, 0, 0, 0, 0, 0, 0, 0, 0, 0, 0, 68, 65, 84, 65, 144, 0, 0, 0, 0, 64,
       0, 0, 0, 0, 0, 0, 1, 0, 0, 0, 1, 0, 0, 0, 0, 65, 0, 0, 0, 0, 0, 0, 0, 0, 0, 0, 0,
       0, 0, 0, 114, 111, 111, 116, 0, 0, 0, 0, 0, 0, 0, 0, 0, 0, 0, 0, 0, 0, 0, 0, 0, 0,
       0, 0, 0, 0, 0, 0, 0, 0, 0, 0, 0, 0, 0, 0, 0, 0, 0, 0, 0, 0, 0, 0, 0, 0, 0, 0, 0,
       0, 0, 0, 0, 0, 0, 0, 0, 0, 0, 0, 0, 0, 0, 0, 0, 0, 128, 63, 0, 0, 0, 0, 0, 0, 0,
       0, 0, 0, 0, 0, 0, 0, 0, 0, 0, 0, 128, 63, 0, 0, 0, 0, 0, 0, 0, 0, 0, 0, 0, 0, 0,
       0, 0, 0, 0, 0, 128, 63, 0, 0, 0, 0, 0, 0, 0, 0, 0, 0, 0, 0, 0, 0, 0, 0, 0, 0, 128,
       63, 68, 65, 84, 65, 144, 0, 0, 0, 0, 65, 0, 0, 0, 0, 0, 0, 1, 0, 0, 0, 1, 0, 0, 0,
       0, 0, 0, 0, 0, 0, 0, 0, 0, 96, 0, 0, 0, 0, 0, 0, 97, 114, 109, 0, 0, 0, 0, 0, 0,
       0, 0, 0, 0, 0, 0, 0, 0, 0, 0, 0, 0, 0, 0, 0, 0, 0, 0, 0, 0, 0, 0, 0, 0, 0, 0, 0,
       0, 0, 0, 0, 0, 0, 0, 0, 0, 0, 0, 0, 0, 0, 0, 0, 0, 0, 0, 0, 0, 0, 0, 0, 0, 0, 0,
       0, 0, 0, 128, 63, 0, 0, 0, 0, 0, 0, 0, 0, 0, 0, 0, 0, 0, 0, 0, 0, 0, 0, 128, 63,
       0, 0, 0, 0, 0, 0, 0, 0, 0, 0, 0, 0, 0, 0, 0, 0, 0, 0, 128, 63, 0, 0, 0, 0, 0, 0,
       0, 0, 0, 0, 0, 0, 0, 0, 0, 0, 0, 0, 128, 63, 68, 65, 84, 65, 64, 0, 0, 0, 0, 96,
       0, 0, 0, 0, 0, 0, 2, 0, 0, 0, 1, 0, 0, 0, 66, 111, 110, 101, 0, 0, 0, 0, 0, 0, 0,
       0, 0, 0, 0, 0, 0, 0, 0, 0, 0, 0, 0, 0, 0, 0, 0, 0, 0, 0, 0, 0, 0, 0, 0, 0, 0, 0,
       0, 0, 0, 0, 0, 0, 0, 0, 0, 0, 0, 0, 0, 0, 0, 0, 0, 0, 0, 0, 0, 0, 0, 0, 0, 0, 69,
       78, 68, 66, 0, 0, 0, 0, 0, 0, 0, 0, 0, 0, 0, 0, 0, 0, 0, 0, 1, 0, 0, 0]\<rparr>"

section \<open>The array loop\<close>

lemma dims_loop_Nil [simp]: "dims_loop [] count = Some (Inr count)"
  by (subst dims_loop.simps) simp

lemma dims_loop_bracket [simp]:
  "dims_loop (CHR ''['' # cs) count =
     (case digits_loop cs 0 of
        (rest, num) \<Rightarrow>
          (case rest of
             [] \<Rightarrow> Some (Inl OutOfBounds)
           | _ # rest' \<Rightarrow> dims_loop rest' (count * num)))"
  by (subst dims_loop.simps) simp

lemma dims_loop_NUL [simp]: "dims_loop (CHR 0x00 # cs) count = Some (Inr count)"
  by (subst dims_loop.simps) simp

text \<open>
  The loop returns only from spans that start with \<^verbatim>\<open>'['\<close> or a zero byte; on any
  other character it does not return.
\<close>

lemma dims_loop_returns_head:
  assumes "dims_loop s n = Some y"
  shows "\<forall>c cs. s = c # cs \<longrightarrow> c \<noteq> CHR ''['' \<longrightarrow> c = CHR 0x00"
proof (rule dims_loop.raw_induct [OF _ assms])
  fix f s n y
  assume "\<And>s n y. f s n = Some y \<Longrightarrow>
            \<forall>c cs. s = c # cs \<longrightarrow> c \<noteq> CHR ''['' \<longrightarrow> c = CHR 0x00"
    and "(case s of
            [] \<Rightarrow> Some (Inr n)
          | c # cs \<Rightarrow>
              if c = CHR ''['' then
                (case digits_loop cs 0 of
                   (rest, num) \<Rightarrow>
                     (case rest of
                        [] \<Rightarrow> Some (Inl OutOfBounds)
                      | _ # rest' \<Rightarrow> f rest' (n * num)))
              else if c = CHR 0x00 then Some (Inr n)
              else f (c # cs) n) = Some y"
  then show "\<forall>c cs. s = c # cs \<longrightarrow> c \<noteq> CHR ''['' \<longrightarrow> c = CHR 0x00"
    by (auto split: list.splits if_splits)
qed

lemma dims_loop_spin:
  "c \<noteq> CHR ''['' \<Longrightarrow> c \<noteq> CHR 0x00 \<Longrightarrow> dims_loop (c # cs) count = None"
  using dims_loop_returns_head [of "c # cs" count]
  by (cases "dims_loop (c # cs) count") auto

lemma digits_loop_digits:
  "\<forall>c\<in>set ds. isdigit c \<Longrightarrow> \<not> isdigit r \<Longrightarrow>
     digits_loop (ds @ r # rest) num
       = (r # rest, foldl (\<lambda>num c. num * 10 + (of_char c - 48)) num ds)"
  by (induction ds arbitrary: num) auto

lemma not_isdigit_close: "\<not> isdigit CHR '']''"
  by (simp add: isdigit_def)

lemma concat_bracketed_Cons:
  "concat (map bracketed (ds # dims))
     = CHR ''['' # ds @ CHR '']'' # concat (map bracketed dims)"
  by (simp add: bracketed_def)

lemma dims_loop_brackets:
  "\<forall>ds\<in>set dims. \<forall>c\<in>set ds. isdigit c \<Longrightarrow>
     dims_loop (concat (map bracketed dims)) count
       = Some (Inr (count * prod_list (map dim_value dims)))"
proof (induction dims arbitrary: count)
  case Nil
  then show ?case by simp
next
  case (Cons ds dims)
  have "digits_loop (ds @ CHR '']'' # concat (map bracketed dims)) 0
          = (CHR '']'' # concat (map bracketed dims), dim_value ds)"
    using Cons.prems by (simp add: digits_loop_digits not_isdigit_close dim_value_def)
  moreover have "dims_loop (concat (map bracketed dims)) (count * dim_value ds)
      = Some (Inr (count * dim_value ds * prod_list (map dim_value dims)))"
    using Cons by simp
  ultimately show ?case
    unfolding concat_bracketed_Cons by (simp add: mult.assoc)
qed

lemma find_first_of_None: "c \<notin> set s \<Longrightarrow> find_first_of s c = None"
  by (induction s) auto

lemma find_first_of_append: "c \<notin> set s \<Longrightarrow> find_first_of (s @ c # t) c = Some (length s)"
  by (induction s) auto

section \<open>Field sizes\<close>

text \<open>
  C4. The size decoded from \<^verbatim>\<open>"co[3]"\<close> with a declared type length of 4 is 12, the
  size decoded from \<^verbatim>\<open>"mat[4][4]"\<close> with a declared type length of 4 is 64, and the size
  decoded from \<^verbatim>\<open>"*data"\<close> is 8 for every declared type length.
\<close>

theorem effective_size_examples:
  "GetFieldSizeByName ''co[3]'' 4 = Some (Inr 12)
   \<and> GetFieldSizeByName ''mat[4][4]'' 4 = Some (Inr 64)
   \<and> (\<forall>L. GetFieldSizeByName ''*data'' L = Some (Inr 8))"
  by (simp add: GetFieldSizeByName_def starts_with_def isdigit_def)

text \<open>
  C7, as the claim states it, fails: a name that starts with \<^verbatim>\<open>'*'\<close> and carries an array
  suffix does not get the size 8. For \<^verbatim>\<open>"*mtex[18]"\<close> the size is \<open>8 * 18 = 144\<close>.
\<close>

theorem pointer_array_not_pointer_width:
  "starts_with ''*mtex[18]'' ''*''
   \<and> GetFieldSizeByName ''*mtex[18]'' 4 = Some (Inr 144)
   \<and> GetFieldSizeByName ''*mtex[18]'' 4 \<noteq> Some (Inr 8)"
  by (simp add: GetFieldSizeByName_def starts_with_def isdigit_def)

text \<open>
  C7, amended. For a name that starts with \<^verbatim>\<open>'*'\<close> or \<^verbatim>\<open>"(*"\<close> and ends in bracketed
  digit strings (with no other \<^verbatim>\<open>'['\<close> before them), the size is 8 times the product of
  the bracketed numbers, modulo \<open>2 ^ 64\<close>, whatever the declared type length: the pointer
  width replaces the type length as the unit and the array suffix still multiplies it.
\<close>

theorem pointer_array_size:
  assumes "starts_with name ''*'' \<or> starts_with name ''(*''"
    and "name = stem @ concat (map bracketed dims)"
    and "CHR ''['' \<notin> set stem"
    and "\<forall>ds\<in>set dims. \<forall>c\<in>set ds. isdigit c"
  shows "GetFieldSizeByName name L = Some (Inr (8 * prod_list (map dim_value dims)))"
proof (cases dims)
  case Nil
  then show ?thesis using assms
    by (simp add: GetFieldSizeByName_def find_first_of_None)
next
  case (Cons ds dims')
  then have "name = stem @ CHR ''['' # (ds @ '']'' @ concat (map bracketed dims'))"
    using assms(2) by (simp add: bracketed_def)
  then have "find_first_of name CHR ''['' = Some (length stem)"
    using assms(3) find_first_of_append by blast
  moreover have "drop (length stem) name = concat (map bracketed dims)"
    using assms(2) by simp
  ultimately show ?thesis using assms(1,4)
    by (simp add: GetFieldSizeByName_def dims_loop_brackets)
qed

theorem pointer_array_size_witness:
  "starts_with ''*mtex[18]'' ''*'' \<and> GetFieldSizeByName ''*mtex[18]'' 4 = Some (Inr 144)"
proof -
  have h1: "starts_with ''*mtex[18]'' ''*'' \<or> starts_with ''*mtex[18]'' ''(*''"
    by (simp add: starts_with_def)
  have h2: "''*mtex[18]'' = ''*mtex'' @ concat (map bracketed [''18''])"
    by (simp add: bracketed_def)
  have h3: "CHR ''['' \<notin> set ''*mtex''" by simp
  have h4: "\<forall>ds\<in>set [''18'']. \<forall>c\<in>set ds. isdigit c"
    by (simp add: isdigit_def)
  have v: "8 * prod_list (map dim_value [''18'']) = (144 :: 64 word)"
    by (simp add: dim_value_def)
  show ?thesis
    using pointer_array_size [OF h1 h2 h3 h4, of 4] h1 unfolding v
    by (simp add: starts_with_def)
qed

section \<open>Evaluating the parser on a given buffer\<close>

lemma read_names_Suc_numeral:
  "read_names mem (numeral k) blockSpan names
     = read_names mem (Suc (pred_numeral k)) blockSpan names"
  "read_names mem 1 blockSpan names = read_names mem (Suc 0) blockSpan names"
  by (simp_all only: numeral_eq_Suc One_nat_def)

lemma read_types_Suc_numeral:
  "read_types mem (numeral k) blockSpan types
     = read_types mem (Suc (pred_numeral k)) blockSpan types"
  "read_types mem 1 blockSpan types = read_types mem (Suc 0) blockSpan types"
  by (simp_all only: numeral_eq_Suc One_nat_def)

lemma read_lengths_Suc_numeral:
  "read_lengths mem (numeral k) i blockSpan types
     = read_lengths mem (Suc (pred_numeral k)) i blockSpan types"
  "read_lengths mem 1 i blockSpan types = read_lengths mem (Suc 0) i blockSpan types"
  by (simp_all only: numeral_eq_Suc One_nat_def)

lemma read_fields_Suc_numeral:
  "read_fields mem (numeral k) blockSpan fs
     = read_fields mem (Suc (pred_numeral k)) blockSpan fs"
  "read_fields mem 1 blockSpan fs = read_fields mem (Suc 0) blockSpan fs"
  by (simp_all only: numeral_eq_Suc One_nat_def)

lemma read_structs_Suc_numeral:
  "read_structs mem (numeral k) i blockSpan structs
     = read_structs mem (Suc (pred_numeral k)) i blockSpan structs"
  "read_structs mem 1 i blockSpan structs = read_structs mem (Suc 0) i blockSpan structs"
  by (simp_all only: numeral_eq_Suc One_nat_def)

lemmas loop_numerals =
  read_names_Suc_numeral [unfolded read_names.simps]
  read_types_Suc_numeral [unfolded read_types.simps]
  read_lengths_Suc_numeral [unfolded read_lengths.simps]
  read_fields_Suc_numeral [unfolded read_fields.simps]
  read_structs_Suc_numeral [unfolded read_structs.simps]

lemmas eval_defs = deref_u8_def deref_u16_def deref_u32_def deref_u64_def read_bytes_def le_word_def
  deref_FileBlockDesc64_def ReadTypePtr_def Advance_def Align4_def Empty_def Identify_def
  expect_tag_def read_count_def resize_vec_def start_state_def emplace_child_def
  HeaderID_def BlockSDNA_def BlockDATA_def EOBMark_def Let_def

lemmas name_defs = StructName_def FieldName_def FieldSize_def at_vec_def AsString_def
  cstring_at_def byte_char_def Let_def

lemma demo_parse: "ParseFile demo_file = Inr (Parsed, demo_state)"
  by (simp add: ParseFile_def ParseSDNA_def ParseFile_loop.simps skip_string.simps demo_file_def demo_state_def eval_defs loop_numerals)


lemma stray_parse: "ParseFile stray_file = Inr (Parsed, stray_state)"
  by (simp add: ParseFile_def ParseSDNA_def ParseFile_loop.simps skip_string.simps stray_file_def stray_state_def eval_defs loop_numerals)

lemma stray_names: "map (StructName stray_file stray_state) (m_structArray stray_state) = [Inl OutOfRange]"
  by (simp add: name_defs stray_file_def stray_state_def)


lemma demo_struct_names:
  "map (StructName demo_file demo_state) (m_structArray demo_state) = [Inr ''Foo'']"
  by (simp add: name_defs demo_file_def demo_state_def)

lemma demo_field_names:
  "map (FieldName demo_file demo_state) (s_fields (m_structArray demo_state ! 0))
     = [Inr ''a'', Inr ''b[2]'']"
  by (simp add: name_defs demo_file_def demo_state_def)

lemma demo_field_sizes:
  "map (FieldSize demo_file demo_state) (s_fields (m_structArray demo_state ! 0))
     = [Some (Inr 4), Some (Inr 8)]"
  by (simp add: name_defs demo_file_def demo_state_def GetFieldSizeByName_def starts_with_def isdigit_def)

lemma demo_offsets:
  "GetFieldOffset demo_file demo_state ''Foo'' ''zzz'' = Some (Inr 12)"
  by (simp add: GetFieldOffset_def GetStructSizeByName_def name_defs demo_file_def demo_state_def GetFieldSizeByName_def starts_with_def isdigit_def)

lemma demo_named: "structs_named demo_file demo_state"
  using demo_struct_names by (simp add: structs_named_def demo_state_def)

lemma demo_find_Foo: "find_struct demo_file demo_state ''Foo'' = Some (m_structArray demo_state ! 0)"
  using demo_struct_names by (simp add: find_struct_def demo_state_def)

lemma demo_find_Bar: "find_struct demo_file demo_state ''Bar'' = None"
  using demo_struct_names by (simp add: find_struct_def demo_state_def)

lemma demo_resolved: "fields_resolved demo_file demo_state (s_fields (m_structArray demo_state ! 0))"
  using demo_field_names demo_field_sizes by (simp add: fields_resolved_def demo_state_def)


lemma chain_struct_names:
  "map (StructName chain_file chain_state) (m_structArray chain_state)
     = [Inr ''CollectionObject'', Inr ''bPoseChannel'', Inr ''Bone'', Inr ''ID'']"
  by (simp add: name_defs chain_file_def chain_state_def)

lemma chain_named: "structs_named chain_file chain_state"
  using chain_struct_names by (simp add: structs_named_def chain_state_def)

lemma chain_find: "find_struct chain_file chain_state ''bPoseChannel''
    = Some (m_structArray chain_state ! 1)"
  using chain_struct_names by (simp add: find_struct_def chain_state_def)

lemma chain_field_names:
  "map (FieldName chain_file chain_state) (s_fields (m_structArray chain_state ! 1))
     = [Inr ''*next'', Inr ''*bone'', Inr ''name[64]'', Inr ''chan_mat[4][4]'']"
  by (simp add: name_defs chain_file_def chain_state_def)

lemma chain_laid_out:
  "laid_out chain_file chain_state (m_structArray chain_state ! 1)
     [(''*next'', []), (''*bone'', []), (''name'', [''64'']), (''chan_mat'', [''4'', ''4''])]"
  using chain_field_names
  by (simp add: laid_out_def declares_def declarator_def bracketed_def declared_bytes_def
      decimal_def TypeLength_def StructLength_def starts_with_def isdigit_def chain_state_def)

section \<open>Lookups in the catalog\<close>

lemma GetStructSizeByName_loop_find:
  "\<forall>sd\<in>set sds. \<exists>n. StructName mem st sd = Inr n \<Longrightarrow>
   GetStructSizeByName_loop mem st S sds
     = Inr (case find (\<lambda>sd. StructName mem st sd = Inr S) sds of
              None \<Rightarrow> 0 | Some sd \<Rightarrow> StructLength st sd)"
proof (induction sds)
  case Nil
  then show ?case by simp
next
  case (Cons sd sds)
  then obtain n where n: "StructName mem st sd = Inr n" by auto
  then show ?case using Cons
    by (auto simp: StructName_def StructLength_def at_vec_def split: sum.splits if_splits)
qed

text \<open>
  C10, as the claim states it, fails: \<open>stray_file\<close> parses, its one struct record has a
  type index outside the type table, so that no struct of the catalog has the type name
  \<^verbatim>\<open>Nope\<close>, and the lookup of \<^verbatim>\<open>Nope\<close> does not return 0: \<^verbatim>\<open>m_typeArray.at\<close> throws.
\<close>

theorem struct_lookup_out_of_range:
  "ParseFile stray_file = Inr (Parsed, stray_state)
   \<and> map (StructName stray_file stray_state) (m_structArray stray_state) = [Inl OutOfRange]
   \<and> GetStructSizeByName stray_file stray_state ''Nope'' = Inl OutOfRange"
  using stray_parse stray_names
  by (simp add: GetStructSizeByName_def at_vec_def stray_state_def)

text \<open>
  C10, amended. When every struct record of the catalog has a type index inside the type
  table and a type name that is a terminated string in the buffer, \<^verbatim>\<open>GetStructSizeByName\<close>
  returns 0 if no struct has the type name \<open>S\<close>, and otherwise the declared length of
  the first struct, in catalog order, whose type name is \<open>S\<close>.
\<close>

theorem struct_size_lookup:
  assumes "structs_named mem st"
  shows "GetStructSizeByName mem st S
           = Inr (case find_struct mem st S of None \<Rightarrow> 0 | Some sd \<Rightarrow> StructLength st sd)"
  using assms GetStructSizeByName_loop_find
  by (simp add: GetStructSizeByName_def structs_named_def find_struct_def)

theorem struct_size_lookup_witness: "structs_named demo_file demo_state
    \<and> GetStructSizeByName demo_file demo_state ''Foo'' = Inr 12
    \<and> GetStructSizeByName demo_file demo_state ''Bar'' = Inr 0"
proof -
  have len: "StructLength demo_state (m_structArray demo_state ! 0) = 12"
    by (simp add: StructLength_def demo_state_def)
  have "GetStructSizeByName demo_file demo_state ''Foo'' = Inr 12"
    using struct_size_lookup [OF demo_named, of "''Foo''"] by (simp only: demo_find_Foo option.case len)
  moreover have "GetStructSizeByName demo_file demo_state ''Bar'' = Inr 0"
    using struct_size_lookup [OF demo_named, of "''Bar''"] by (simp only: demo_find_Bar option.case)
  ultimately show ?thesis using demo_named by simp
qed

lemma fields_loop_sum:
  "fields_resolved mem st fs \<Longrightarrow>
   GetFieldOffset_fields mem st f fs off
     = Some (Inr (off + sum_list (map (field_bytes mem st)
                      (takeWhile (\<lambda>fd. FieldName mem st fd \<noteq> Inr f) fs))))"
proof (induction fs arbitrary: off)
  case Nil
  then show ?case by simp
next
  case (Cons fd fs)
  from Cons.prems obtain n sz where
    n: "FieldName mem st fd = Inr n" and sz: "FieldSize mem st fd = Some (Inr sz)"
    and rest: "fields_resolved mem st fs"
    by (auto simp: fields_resolved_def)
  show ?case
  proof (cases "f = n")
    case True
    then show ?thesis using n
      by (auto simp: FieldName_def split: sum.splits)
  next
    case False
    then show ?thesis using n sz Cons.IH [OF rest]
      by (auto simp: FieldName_def FieldSize_def field_bytes_def add.assoc split: sum.splits option.splits)
  qed
qed

lemma structs_loop_find:
  "\<forall>sd\<in>set sds. \<exists>n. StructName mem st sd = Inr n \<Longrightarrow>
   GetFieldOffset_structs mem st S f sds
     = (case find (\<lambda>sd. StructName mem st sd = Inr S) sds of
          None \<Rightarrow> Some (Inr 0)
        | Some sd \<Rightarrow> GetFieldOffset_fields mem st f (s_fields sd) 0)"
proof (induction sds)
  case Nil
  then show ?case by simp
next
  case (Cons sd sds)
  then obtain n where n: "StructName mem st sd = Inr n" by auto
  then show ?case using Cons
    by (auto simp: StructName_def split: sum.splits if_splits)
qed

text \<open>
  C1, as the claim states it, fails: \<open>demo_file\<close> parses, its catalog has the struct
  \<^verbatim>\<open>Foo\<close> with the fields \<^verbatim>\<open>a\<close> and \<^verbatim>\<open>b[2]\<close>, and the offset returned for the absent
  field \<^verbatim>\<open>zzz\<close> is 12, not 0.
\<close>

theorem field_miss_not_zero:
  "ParseFile demo_file = Inr (Parsed, demo_state)
   \<and> map (StructName demo_file demo_state) (m_structArray demo_state) = [Inr ''Foo'']
   \<and> map (FieldName demo_file demo_state) (s_fields (m_structArray demo_state ! 0))
       = [Inr ''a'', Inr ''b[2]'']
   \<and> GetFieldOffset demo_file demo_state ''Foo'' ''zzz'' = Some (Inr 12)"
  using demo_parse demo_struct_names demo_field_names demo_offsets by simp

text \<open>
  C1, amended. In a catalog whose struct records all have a type index inside the type
  table and a terminated type name: when no struct is named \<open>S\<close>, \<^verbatim>\<open>GetFieldOffset\<close>
  returns 0. When the first struct named \<open>S\<close> has fields that all resolve (name and type
  index inside the tables, a terminated name, a size that \<^verbatim>\<open>GetFieldSizeByName\<close>
  returns) and none of them is named \<open>f\<close>, it returns the sum of the sizes of all fields
  of that struct (modulo \<open>2 ^ 64\<close>): the field loop runs to its end and the running
  offset is returned.
\<close>

theorem field_offset_on_miss:
  assumes "structs_named mem st"
  shows "(find_struct mem st S = None \<longrightarrow> GetFieldOffset mem st S f = Some (Inr 0))
       \<and> (\<forall>sd. find_struct mem st S = Some sd \<and> fields_resolved mem st (s_fields sd)
               \<and> Inr f \<notin> FieldName mem st ` set (s_fields sd)
             \<longrightarrow> GetFieldOffset mem st S f
                   = Some (Inr (sum_list (map (field_bytes mem st) (s_fields sd)))))"
proof -
  have eq: "GetFieldOffset mem st S f
     = (case find_struct mem st S of
          None \<Rightarrow> Some (Inr 0)
        | Some sd \<Rightarrow> GetFieldOffset_fields mem st f (s_fields sd) 0)"
    using assms structs_loop_find
    by (simp add: GetFieldOffset_def structs_named_def find_struct_def)
  have all: "takeWhile (\<lambda>fd. FieldName mem st fd \<noteq> Inr f) fs = fs"
    if "Inr f \<notin> FieldName mem st ` set fs" for fs
    using that by (induction fs) auto
  show ?thesis
    by (simp add: eq fields_loop_sum all)
qed

theorem field_offset_on_miss_witness: "structs_named demo_file demo_state
    \<and> GetFieldOffset demo_file demo_state ''Bar'' ''a'' = Some (Inr 0)
    \<and> GetFieldOffset demo_file demo_state ''Foo'' ''zzz'' = Some (Inr 12)"
proof -
  have nf: "Inr ''zzz'' \<notin> FieldName demo_file demo_state ` set (s_fields (m_structArray demo_state ! 0))"
    using demo_field_names by (simp add: demo_state_def)
  have sum: "sum_list (map (field_bytes demo_file demo_state) (s_fields (m_structArray demo_state ! 0))) = 12"
    using demo_field_sizes by (simp add: field_bytes_def demo_state_def)
  from field_offset_on_miss [OF demo_named, of "''Bar''" "''a''"] demo_find_Bar
  have a: "GetFieldOffset demo_file demo_state ''Bar'' ''a'' = Some (Inr 0)" by simp
  from field_offset_on_miss [OF demo_named, of "''Foo''" "''zzz''"] demo_find_Foo demo_resolved nf
  have "GetFieldOffset demo_file demo_state ''Foo'' ''zzz''
      = Some (Inr (sum_list (map (field_bytes demo_file demo_state) (s_fields (m_structArray demo_state ! 0)))))"
    by blast
  with a sum demo_named show ?thesis by simp
qed

lemma takeWhile_distinct_nth:
  "distinct (map g xs) \<Longrightarrow> j < length xs \<Longrightarrow> takeWhile (\<lambda>x. g x \<noteq> g (xs ! j)) xs = take j xs"
proof (induction xs arbitrary: j)
  case Nil
  then show ?case by simp
next
  case (Cons x xs)
  show ?case
  proof (cases j)
    case 0
    then show ?thesis by simp
  next
    case (Suc k)
    then have "g x \<noteq> g (xs ! k)" using Cons.prems by auto
    then show ?thesis using Suc Cons by auto
  qed
qed


lemma unat_sum_list_no_wrap:
  "sum_list (map unat (ws :: 64 word list)) < 2 ^ 64 \<Longrightarrow> unat (sum_list ws) = sum_list (map unat ws)"
proof (induction ws)
  case Nil
  then show ?case by simp
next
  case (Cons w ws)
  then have "unat (sum_list ws) = sum_list (map unat ws)" by simp
  moreover have "unat w + sum_list (map unat ws) < 2 ^ 64" using Cons.prems by simp
  ultimately show ?case
    by (simp add: unat_word_ariths)
qed

lemma sum_list_take_mono:
  "i \<le> j \<Longrightarrow> sum_list (take i (ns :: nat list)) \<le> sum_list (take j ns)"
proof (induction ns arbitrary: i j)
  case Nil
  then show ?case by simp
next
  case (Cons n ns)
  then show ?case by (cases i; cases j) auto
qed

lemma sum_list_take_Suc_nat:
  "i < length (ns :: nat list) \<Longrightarrow> sum_list (take (Suc i) ns) = sum_list (take i ns) + ns ! i"
  by (simp add: take_Suc_conv_app_nth)

text \<open>
  In the first struct named \<open>S\<close>, with fields that resolve and have pairwise distinct
  names, the offset of the field at position \<open>j\<close> is the sum of the sizes of the fields
  before it (modulo \<open>2 ^ 64\<close>), and the offset of an earlier field is strictly smaller
  when that field has a non-zero size and the sizes before \<open>j\<close> add up to less than
  \<open>2 ^ 64\<close>.
\<close>

lemma offsets_prefix_sums:
  assumes named: "structs_named mem st"
    and found: "find_struct mem st S = Some sd"
    and resolved: "fields_resolved mem st (s_fields sd)"
    and dist: "distinct (map (FieldName mem st) (s_fields sd))"
    and j: "j < length (s_fields sd)"
    and f2: "FieldName mem st (s_fields sd ! j) = Inr f2"
  shows "GetFieldOffset mem st S f2
           = Some (Inr (sum_list (map (field_bytes mem st) (take j (s_fields sd)))))
       \<and> (\<forall>i f1. i < j \<and> FieldName mem st (s_fields sd ! i) = Inr f1
              \<and> field_bytes mem st (s_fields sd ! i) \<noteq> 0
              \<and> sum_list (map (unat \<circ> field_bytes mem st) (take j (s_fields sd))) < 2 ^ 64
            \<longrightarrow> (\<exists>o1 o2. GetFieldOffset mem st S f1 = Some (Inr o1)
                          \<and> GetFieldOffset mem st S f2 = Some (Inr o2) \<and> o1 < o2))"
proof -
  let ?fs = "s_fields sd"
  let ?sz = "field_bytes mem st"
  have eq: "GetFieldOffset mem st S f
     = GetFieldOffset_fields mem st f ?fs 0" for f
    using named found structs_loop_find [of "m_structArray st" mem st S f]
    by (simp add: GetFieldOffset_def structs_named_def find_struct_def)
  have off: "GetFieldOffset mem st S f = Some (Inr (sum_list (map ?sz (take k ?fs))))"
    if "k < length ?fs" "FieldName mem st (?fs ! k) = Inr f" for k f
  proof -
    have "takeWhile (\<lambda>fd. FieldName mem st fd \<noteq> Inr f) ?fs = take k ?fs"
      using takeWhile_distinct_nth [OF dist that(1)] that(2) by simp
    then show ?thesis by (simp add: eq fields_loop_sum [OF resolved])
  qed
  have mono: "sum_list (map ?sz (take i ?fs)) < sum_list (map ?sz (take j ?fs))"
    if i: "i < j" and nz: "?sz (?fs ! i) \<noteq> 0"
      and nowrap: "sum_list (map (unat \<circ> ?sz) (take j ?fs)) < 2 ^ 64" for i
  proof -
    let ?ns = "map (unat \<circ> ?sz) ?fs"
    have tk: "map (unat \<circ> ?sz) (take k ?fs) = take k ?ns" for k by (simp add: take_map)
    have il: "i < length ?ns" using i j by simp
    have "sum_list (take (Suc i) ?ns) \<le> sum_list (take j ?ns)"
      using i by (intro sum_list_take_mono) simp
    moreover have "sum_list (take (Suc i) ?ns) = sum_list (take i ?ns) + ?ns ! i"
      using il by (rule sum_list_take_Suc_nat)
    moreover have "0 < ?ns ! i" using nz i j by (simp add: unat_gt_0)
    ultimately have lt: "sum_list (take i ?ns) < sum_list (take j ?ns)" by linarith
    have wj: "sum_list (map unat (map ?sz (take j ?fs))) < 2 ^ 64"
      using nowrap by (simp add: comp_def)
    have wi: "sum_list (map unat (map ?sz (take i ?fs))) < 2 ^ 64"
      using lt nowrap by (simp add: tk comp_def take_map)
    have "unat (sum_list (map ?sz (take i ?fs))) < unat (sum_list (map ?sz (take j ?fs)))"
      using lt unat_sum_list_no_wrap [OF wj] unat_sum_list_no_wrap [OF wi]
      by (simp add: tk comp_def take_map)
    then show ?thesis by (simp add: word_less_nat_alt)
  qed
  show ?thesis
  proof (intro conjI allI impI)
    show "GetFieldOffset mem st S f2 = Some (Inr (sum_list (map ?sz (take j ?fs))))"
      using off [OF j f2] .
  next
    fix i f1
    assume a: "i < j \<and> FieldName mem st (?fs ! i) = Inr f1 \<and> ?sz (?fs ! i) \<noteq> 0
       \<and> sum_list (map (unat \<circ> ?sz) (take j ?fs)) < 2 ^ 64"
    then have "i < length ?fs" using j by simp
    then have "GetFieldOffset mem st S f1 = Some (Inr (sum_list (map ?sz (take i ?fs))))"
      using off a by blast
    then show "\<exists>o1 o2. GetFieldOffset mem st S f1 = Some (Inr o1)
                 \<and> GetFieldOffset mem st S f2 = Some (Inr o2) \<and> o1 < o2"
      using off [OF j f2] mono a by blast
  qed
qed

lemma foldl_digits:
  "\<forall>c\<in>set ds. isdigit c \<Longrightarrow>
     foldl (\<lambda>num c. num * 10 + (of_char c - 48)) (of_nat a :: 64 word) ds
       = of_nat (foldl (\<lambda>n c. n * 10 + (of_char c - 48)) a ds)"
proof (induction ds arbitrary: a)
  case Nil
  then show ?case by simp
next
  case (Cons c ds)
  then have c: "48 \<le> (of_char c :: nat)" by (simp add: isdigit_def)
  have "(of_char c :: 64 word) - 48 = of_nat (of_char c) - of_nat 48"
    by (simp add: of_nat_of_char)
  also have "\<dots> = of_nat (of_char c - 48)" using c by (simp only: of_nat_diff)
  finally have step:
    "of_nat a * 10 + ((of_char c :: 64 word) - 48) = of_nat (a * 10 + (of_char c - 48))"
    by simp
  have rest: "\<forall>c\<in>set ds. isdigit c" using Cons.prems by simp
  show ?case
    unfolding foldl_Cons step by (rule Cons.IH [OF rest])
qed

lemma dim_value_decimal:
  "\<forall>c\<in>set ds. isdigit c \<Longrightarrow> dim_value ds = of_nat (decimal ds)"
  using foldl_digits [of ds 0] by (simp add: dim_value_def decimal_def)

lemma prod_dim_values:
  "\<forall>ds\<in>set dims. \<forall>c\<in>set ds. isdigit c \<Longrightarrow>
     prod_list (map dim_value dims) = of_nat (prod_list (map decimal dims))"
  by (induction dims) (simp_all add: dim_value_decimal)

lemma starts_with_stem:
  "CHR ''['' \<notin> set stem \<Longrightarrow>
     starts_with (stem @ concat (map bracketed dims)) ''*'' = starts_with stem ''*''"
  "CHR ''['' \<notin> set stem \<Longrightarrow>
     starts_with (stem @ concat (map bracketed dims)) ''(*'' = starts_with stem ''(*''"
  by (cases stem; cases "tl stem"; cases dims; auto simp: starts_with_def bracketed_def)+

lemma declarator_size:
  assumes "CHR ''['' \<notin> set (fst d)"
    and "\<forall>ds\<in>set (snd d). \<forall>c\<in>set ds. isdigit c"
  shows "GetFieldSizeByName (declarator d) L
           = Some (Inr ((if starts_with (fst d) ''*'' \<or> starts_with (fst d) ''(*'' then 8 else L)
                         * prod_list (map dim_value (snd d))))"
proof (cases "snd d")
  case Nil
  then show ?thesis using assms
    by (simp add: GetFieldSizeByName_def find_first_of_None declarator_def)
next
  case (Cons ds dims')
  then have "declarator d = fst d @ CHR ''['' # (ds @ '']'' @ concat (map bracketed dims'))"
    by (simp add: bracketed_def declarator_def)
  then have "find_first_of (declarator d) CHR ''['' = Some (length (fst d))"
    using assms(1) find_first_of_append by metis
  moreover have "drop (length (fst d)) (declarator d) = concat (map bracketed (snd d))"
    by (simp add: declarator_def)
  ultimately show ?thesis using assms starts_with_stem [OF assms(1), of "snd d"]
    by (simp add: GetFieldSizeByName_def dims_loop_brackets declarator_def)
qed

lemma declares_size:
  assumes "declares mem st fd d"
  shows "FieldSize mem st fd = Some (Inr (of_nat (declared_bytes (TypeLength st fd) d)))"
proof -
  from assms have n: "FieldName mem st fd = Inr (declarator d)"
    and t: "unat (f_typeIndex fd) < length (m_typeArray st)"
    and s: "CHR ''['' \<notin> set (fst d)"
    and g: "\<forall>ds\<in>set (snd d). \<forall>c\<in>set ds. isdigit c"
    by (simp_all add: declares_def)
  have u: "(ucast (ti_length (m_typeArray st ! unat (f_typeIndex fd))) :: 64 word)
             = of_nat (TypeLength st fd)"
    by (simp add: TypeLength_def)
  show ?thesis
    using n t declarator_size [OF s g] prod_dim_values [OF g]
    by (simp add: FieldSize_def at_vec_def u declared_bytes_def)
qed


lemma declared_sizes:
  assumes "list_all2 (declares mem st) fs decls"
    and "sum_list (map2 (\<lambda>fd d. declared_bytes (TypeLength st fd) d) fs decls) < 2 ^ 64"
  shows "map (FieldName mem st) fs = map (\<lambda>d. Inr (declarator d)) decls
       \<and> map (FieldSize mem st) fs = map (\<lambda>fd. Some (Inr (field_bytes mem st fd))) fs
       \<and> map (unat \<circ> field_bytes mem st) fs
           = map2 (\<lambda>fd d. declared_bytes (TypeLength st fd) d) fs decls"
  using assms
proof (induction fs decls rule: list_all2_induct)
  case Nil
  then show ?case by simp
next
  case (Cons fd fs d decls)
  let ?db = "declared_bytes (TypeLength st fd) d"
  have small: "?db < 2 ^ 64"
    and rest: "sum_list (map2 (\<lambda>fd d. declared_bytes (TypeLength st fd) d) fs decls) < 2 ^ 64"
    using Cons.prems by simp_all
  have nm: "FieldName mem st fd = Inr (declarator d)"
    using Cons.hyps(1) by (simp add: declares_def)
  have sz: "FieldSize mem st fd = Some (Inr (of_nat ?db))"
    using Cons.hyps(1) by (rule declares_size)
  then have fb: "field_bytes mem st fd = of_nat ?db" by (simp add: field_bytes_def)
  have un: "unat (field_bytes mem st fd) = ?db"
    unfolding fb using small by (simp add: unat_of_nat)
  show ?case using Cons.IH [OF rest] nm sz fb un by simp
qed

lemma sum_list_take_le: "sum_list (take j (ns :: nat list)) \<le> sum_list ns"
  by (induction ns arbitrary: j) (auto simp: take_Cons split: nat.splits intro: le_SucI trans_le_add2)

text \<open>
  C3. In a catalog whose struct records are named, let the first struct named \<open>S\<close> be
  laid out by a list of declarators. Then the offset \<^verbatim>\<open>GetFieldOffset\<close> returns for a
  field is strictly smaller than the offset it returns for every later field, and the
  sizes \<^verbatim>\<open>GetFieldSizeByName\<close> returns for the fields of the struct add up, without
  wrapping, to the declared length that \<^verbatim>\<open>GetStructSizeByName\<close> returns for \<open>S\<close>.
\<close>

theorem layout_round_trip:
  assumes named: "structs_named mem st"
    and found: "find_struct mem st S = Some sd"
    and lay: "laid_out mem st sd decls"
  shows "(\<forall>i j. i < j \<and> j < length decls \<longrightarrow>
            (\<exists>o1 o2. GetFieldOffset mem st S (declarator (decls ! i)) = Some (Inr o1)
                   \<and> GetFieldOffset mem st S (declarator (decls ! j)) = Some (Inr o2)
                   \<and> o1 < o2))
       \<and> (\<exists>sizes. map (FieldSize mem st) (s_fields sd) = map (\<lambda>z. Some (Inr z)) sizes
             \<and> GetStructSizeByName mem st S = Inr (StructLength st sd)
             \<and> sum_list (map unat sizes) = unat (StructLength st sd))"
proof -
  let ?fs = "s_fields sd"
  let ?fb = "field_bytes mem st"
  let ?dbs = "map2 (\<lambda>fd d. declared_bytes (TypeLength st fd) d) ?fs decls"
  from lay have all: "list_all2 (declares mem st) ?fs decls"
    and dist: "distinct (map declarator decls)"
    and total: "sum_list ?dbs = unat (StructLength st sd)"
    by (simp_all add: laid_out_def)
  have lt: "sum_list ?dbs < 2 ^ 64"
    unfolding total using unsigned_less [of "StructLength st sd"] by simp
  note ds = declared_sizes [OF all lt]
  have len: "length ?fs = length decls" using all by (rule list_all2_lengthD)
  have names: "map (FieldName mem st) ?fs = map (\<lambda>d. Inr (declarator d)) decls"
    using ds by blast
  have sizes: "map (FieldSize mem st) ?fs = map (\<lambda>fd. Some (Inr (?fb fd))) ?fs"
    using ds by blast
  have bytes: "map (unat \<circ> ?fb) ?fs = ?dbs" using ds by blast
  have name_at: "FieldName mem st (?fs ! i) = Inr (declarator (decls ! i))"
    if "i < length decls" for i
    using that len arg_cong [OF names, of "\<lambda>xs. xs ! i"] by simp
  have size_at: "FieldSize mem st (?fs ! i) = Some (Inr (?fb (?fs ! i)))"
    if "i < length decls" for i
    using that len arg_cong [OF sizes, of "\<lambda>xs. xs ! i"] by simp
  have resolved: "fields_resolved mem st ?fs"
    unfolding fields_resolved_def
  proof
    fix fd assume "fd \<in> set ?fs"
    then obtain i where i: "i < length ?fs" "fd = ?fs ! i" by (auto simp: in_set_conv_nth)
    then show "\<exists>n sz. FieldName mem st fd = Inr n \<and> FieldSize mem st fd = Some (Inr sz)"
      using name_at [of i] size_at [of i] len by auto
  qed
  have "map (FieldName mem st) ?fs = map Inr (map declarator decls)"
    unfolding names by simp
  then have distN: "distinct (map (FieldName mem st) ?fs)"
    using dist by (simp add: distinct_map inj_on_def)
  have pos: "?fb (?fs ! i) \<noteq> 0" if i: "i < length decls" for i
  proof -
    have "declares mem st (?fs ! i) (decls ! i)"
      using all i len by (simp add: list_all2_conv_all_nth)
    then have "0 < declared_bytes (TypeLength st (?fs ! i)) (decls ! i)"
      by (simp add: declares_def)
    moreover have "(map (unat \<circ> ?fb) ?fs) ! i = ?dbs ! i" by (simp only: bytes)
    ultimately have "0 < unat (?fb (?fs ! i))" using i len by simp
    then show ?thesis by (simp add: unat_gt_0)
  qed
  have nowrap: "sum_list (map (unat \<circ> ?fb) (take j ?fs)) < 2 ^ 64" for j
  proof -
    have "sum_list (take j (map (unat \<circ> ?fb) ?fs)) \<le> sum_list (map (unat \<circ> ?fb) ?fs)"
      by (rule sum_list_take_le)
    then show ?thesis using lt unfolding bytes [symmetric] by (simp add: take_map)
  qed
  have order: "\<exists>o1 o2. GetFieldOffset mem st S (declarator (decls ! i)) = Some (Inr o1)
                   \<and> GetFieldOffset mem st S (declarator (decls ! j)) = Some (Inr o2)
                   \<and> o1 < o2"
    if ij: "i < j \<and> j < length decls" for i j
  proof -
    have j: "j < length ?fs" using ij len by simp
    have i: "i < length decls" using ij by simp
    note main = offsets_prefix_sums
      [OF named found resolved distN j name_at [of j]]
    from main ij name_at [OF i] pos [OF i] nowrap [of j] show ?thesis by blast
  qed
  have lookup: "GetStructSizeByName mem st S = Inr (StructLength st sd)"
    using named found GetStructSizeByName_loop_find [of "m_structArray st" mem st S]
    by (simp add: GetStructSizeByName_def structs_named_def find_struct_def)
  have sum: "sum_list (map unat (map ?fb ?fs)) = unat (StructLength st sd)"
    using bytes total by (simp add: comp_def)
  have "map (FieldSize mem st) ?fs = map (\<lambda>z. Some (Inr z)) (map ?fb ?fs)"
    using sizes by (simp add: comp_def)
  then have "\<exists>sizes. map (FieldSize mem st) ?fs = map (\<lambda>z. Some (Inr z)) sizes
             \<and> GetStructSizeByName mem st S = Inr (StructLength st sd)
             \<and> sum_list (map unat sizes) = unat (StructLength st sd)"
    using lookup sum by blast
  then show ?thesis using order by blast
qed

theorem layout_round_trip_witness:
  "laid_out chain_file chain_state (m_structArray chain_state ! 1)
     [(''*next'', []), (''*bone'', []), (''name'', [''64'']), (''chan_mat'', [''4'', ''4''])]
   \<and> (\<exists>o1 o2. GetFieldOffset chain_file chain_state ''bPoseChannel'' ''*bone'' = Some (Inr o1)
          \<and> GetFieldOffset chain_file chain_state ''bPoseChannel'' ''name[64]'' = Some (Inr o2)
          \<and> o1 < o2)
   \<and> GetStructSizeByName chain_file chain_state ''bPoseChannel'' = Inr 144"
proof -
  let ?decls = "[(''*next'', []), (''*bone'', []), (''name'', [''64'']), (''chan_mat'', [''4'', ''4''])]"
  note main = layout_round_trip [OF chain_named chain_find chain_laid_out]
  have len: "StructLength chain_state (m_structArray chain_state ! 1) = 144"
    by (simp add: StructLength_def chain_state_def)
  have n1: "declarator (?decls ! 1) = ''*bone''" and n2: "declarator (?decls ! 2) = ''name[64]''"
    by (simp_all add: declarator_def bracketed_def)
  have "(1::nat) < 2 \<and> 2 < length ?decls" by simp
  with main have "\<exists>o1 o2. GetFieldOffset chain_file chain_state ''bPoseChannel'' (declarator (?decls ! 1)) = Some (Inr o1)
          \<and> GetFieldOffset chain_file chain_state ''bPoseChannel'' (declarator (?decls ! 2)) = Some (Inr o2)
          \<and> o1 < o2" by blast
  then have "\<exists>o1 o2. GetFieldOffset chain_file chain_state ''bPoseChannel'' ''*bone'' = Some (Inr o1)
          \<and> GetFieldOffset chain_file chain_state ''bPoseChannel'' ''name[64]'' = Some (Inr o2)
          \<and> o1 < o2" unfolding n1 n2 .
  moreover from main have "GetStructSizeByName chain_file chain_state ''bPoseChannel'' = Inr 144"
    unfolding len by blast
  ultimately show ?thesis using chain_laid_out by blast
qed

lemma FindFileBlockByOldAddr_loop_first:
  "i < length bs \<Longrightarrow> \<forall>j<i. d_oldMemoryAddress (desc (bs ! j)) \<noteq> a \<Longrightarrow>
   d_oldMemoryAddress (desc (bs ! i)) = a \<Longrightarrow> FindFileBlockByOldAddr_loop bs a = Some (bs ! i)"
proof (induction bs arbitrary: i)
  case Nil
  then show ?case by simp
next
  case (Cons b bs)
  show ?case
  proof (cases i)
    case 0
    then show ?thesis using Cons.prems by simp
  next
    case (Suc k)
    then have "d_oldMemoryAddress (desc b) \<noteq> a" using Cons.prems(2) by auto
    moreover have "\<forall>j<k. d_oldMemoryAddress (desc (bs ! j)) \<noteq> a"
      using Cons.prems(2) Suc by auto
    ultimately show ?thesis using Cons Suc by simp
  qed
qed

lemma FindFileBlockByOldAddr_loop_mem:
  "c \<in> set bs \<Longrightarrow> \<exists>b. FindFileBlockByOldAddr_loop bs (d_oldMemoryAddress (desc c)) = Some b
        \<and> d_oldMemoryAddress (desc b) = d_oldMemoryAddress (desc c)"
  by (induction bs) auto

text \<open>
  C5. \<^verbatim>\<open>FindFileBlockByOldAddr\<close> finds nothing for the address 0; for every block of
  \<^verbatim>\<open>m_blockArray\<close> with a non-zero original address it finds a block with that address;
  and the block found for an address is the first one, in the order of the array, that
  has it.
\<close>

theorem resolve_first_wins:
  "FindFileBlockByOldAddr st 0 = None
   \<and> (\<forall>c\<in>set (m_blockArray st). d_oldMemoryAddress (desc c) \<noteq> 0 \<longrightarrow>
        (\<exists>b. FindFileBlockByOldAddr st (d_oldMemoryAddress (desc c)) = Some b
            \<and> d_oldMemoryAddress (desc b) = d_oldMemoryAddress (desc c)))
   \<and> (\<forall>i<length (m_blockArray st).
        d_oldMemoryAddress (desc (m_blockArray st ! i)) \<noteq> 0
        \<and> (\<forall>j<i. d_oldMemoryAddress (desc (m_blockArray st ! j))
                    \<noteq> d_oldMemoryAddress (desc (m_blockArray st ! i)))
        \<longrightarrow> FindFileBlockByOldAddr st (d_oldMemoryAddress (desc (m_blockArray st ! i)))
              = Some (m_blockArray st ! i))"
  using FindFileBlockByOldAddr_loop_mem FindFileBlockByOldAddr_loop_first
  by (simp add: FindFileBlockByOldAddr_def)

theorem resolve_first_wins_witness: "FindFileBlockByOldAddr demo_state 0 = None
   \<and> FindFileBlockByOldAddr demo_state 4096 = Some (m_blockArray demo_state ! 1)
   \<and> d_oldMemoryAddress (desc (m_blockArray demo_state ! 3)) = 4096"
proof -
  let ?bs = "m_blockArray demo_state"
  have r: "FindFileBlockByOldAddr demo_state (d_oldMemoryAddress (desc (?bs ! i))) = Some (?bs ! i)"
    if "i < length ?bs" "d_oldMemoryAddress (desc (?bs ! i)) \<noteq> 0"
       "\<forall>j<i. d_oldMemoryAddress (desc (?bs ! j)) \<noteq> d_oldMemoryAddress (desc (?bs ! i))" for i
    using resolve_first_wins [of demo_state] that by blast
  have z: "FindFileBlockByOldAddr demo_state 0 = None"
    using resolve_first_wins [of demo_state] by blast
  have a1: "d_oldMemoryAddress (desc (?bs ! 1)) = 4096" by (simp add: demo_state_def)
  have a3: "d_oldMemoryAddress (desc (?bs ! 3)) = 4096" by (simp add: demo_state_def)
  have a0: "d_oldMemoryAddress (desc (?bs ! 0)) = 0" by (simp add: demo_state_def)
  have l: "1 < length ?bs" by (simp add: demo_state_def)
  have "FindFileBlockByOldAddr demo_state (d_oldMemoryAddress (desc (?bs ! 1))) = Some (?bs ! 1)"
  proof (rule r [OF l])
    show "d_oldMemoryAddress (desc (?bs ! 1)) \<noteq> 0" unfolding a1 by simp
    show "\<forall>j<1. d_oldMemoryAddress (desc (?bs ! j)) \<noteq> d_oldMemoryAddress (desc (?bs ! 1))"
      unfolding a1 using a0 by simp
  qed
  then show ?thesis using z a1 a3 by simp
qed

section \<open>The signature record\<close>

lemma read_bytes_base:
  "k + n \<le> length (buf_bytes mem) \<Longrightarrow>
     read_bytes mem (buf_base mem + k) n = Inr (take n (drop k (buf_bytes mem)))"
  by (simp add: read_bytes_def)

lemma deref_u8_base:
  "k < length (buf_bytes mem) \<Longrightarrow> deref_u8 mem (buf_base mem + k) = Inr (buf_bytes mem ! k)"
  using read_bytes_base [of k 1 mem]
  by (simp add: deref_u8_def take_Suc_conv_app_nth hd_drop_conv_nth)

lemma fileSpan_start_state [simp]:
  "span_begin (m_fileSpan (start_state mem)) = buf_base mem"
  "span_end (m_fileSpan (start_state mem)) = buf_base mem + length (buf_bytes mem)"
  by (simp_all add: start_state_def)

lemma ParseFile_magic:
  assumes "\<not> Empty (m_fileSpan (start_state mem))"
    and "read_bytes mem (buf_base mem) 7 = Inr ident"
    and "\<not> Identify ident HeaderID 7"
  shows "ParseFile mem = Inr (MagicMismatch, start_state mem)"
  using assms by (simp add: ParseFile_def Let_def ReadTypePtr_def)

lemma ParseFile_variant:
  assumes "\<not> Empty (m_fileSpan (start_state mem))"
    and "read_bytes mem (buf_base mem) 7 = Inr ident"
    and "Identify ident HeaderID 7"
    and "deref_u8 mem (buf_base mem + 7) = Inr pointerSize"
    and "deref_u8 mem (buf_base mem + 8) = Inr endianness"
    and "pointerSize = of_char CHR ''_''
         \<or> pointerSize = of_char CHR ''-'' \<and> endianness \<noteq> of_char CHR ''v''"
  shows "ParseFile mem = Inr (UnsupportedVariant, start_state mem)"
  using assms by (auto simp: ParseFile_def Let_def ReadTypePtr_def)

lemma ParseFile_unrecognised:
  assumes "\<not> Empty (m_fileSpan (start_state mem))"
    and "read_bytes mem (buf_base mem) 7 = Inr ident"
    and "Identify ident HeaderID 7"
    and "deref_u8 mem (buf_base mem + 7) = Inr pointerSize"
    and "pointerSize \<noteq> of_char CHR ''_''" "pointerSize \<noteq> of_char CHR ''-''"
  shows "ParseFile mem = Inl AssertFailed"
  using assms by (auto simp: ParseFile_def Let_def ReadTypePtr_def)

text \<open>
  C6, as the claim states it, fails: with the signature \<^verbatim>\<open>BLENDERXv300\<close> the byte of the
  pointer width is not the one of the 8-byte variant, and the parse does not end with the
  message of an unsupported variant: the assertion on the byte fails first.
\<close>

theorem unrecognised_pointer_tag:
  "ParseFile \<lparr>buf_base = 4096, buf_bytes = map of_char ''BLENDERXv300''\<rparr> = Inl AssertFailed"
  by (simp add: ParseFile_def eval_defs)

text \<open>
  C6, amended. For a buffer of at least 7 bytes whose first seven bytes are not
  \<^verbatim>\<open>BLENDER\<close>, \<^verbatim>\<open>ParseFile\<close> returns \<^verbatim>\<open>false\<close> with the message of a magic mismatch.
  For a buffer of at least 9 bytes that starts with \<^verbatim>\<open>BLENDER\<close>, when the byte of the
  pointer width is \<^verbatim>\<open>'_'\<close>, or it is \<^verbatim>\<open>'-'\<close> and the byte of the byte order is not
  \<^verbatim>\<open>'v'\<close>, it returns \<^verbatim>\<open>false\<close> with the message of an unsupported variant. In both
  cases the tables are as \<^verbatim>\<open>Cleanup()\<close> left them: there are no blocks.
\<close>

theorem header_errors:
  assumes "7 \<le> length (buf_bytes mem)"
  shows "(take 7 (buf_bytes mem) \<noteq> map of_char ''BLENDER''
            \<longrightarrow> ParseFile mem = Inr (MagicMismatch, start_state mem))
       \<and> (9 \<le> length (buf_bytes mem)
            \<and> take 7 (buf_bytes mem) = map of_char ''BLENDER''
            \<and> (buf_bytes mem ! 7 = of_char CHR ''_''
               \<or> buf_bytes mem ! 7 = of_char CHR ''-''
                 \<and> buf_bytes mem ! 8 \<noteq> of_char CHR ''v'')
            \<longrightarrow> ParseFile mem = Inr (UnsupportedVariant, start_state mem))
       \<and> m_blockArray (start_state mem) = []"
proof -
  have ne: "\<not> Empty (m_fileSpan (start_state mem))"
    using assms by (cases "buf_bytes mem") (simp_all add: start_state_def Empty_def)
  have id: "read_bytes mem (buf_base mem) 7 = Inr (take 7 (buf_bytes mem))"
    using assms read_bytes_base [of 0 7 mem] by simp
  have l7: "length (take 7 (buf_bytes mem)) = 7" using assms by simp
  have idf: "Identify (take 7 (buf_bytes mem)) HeaderID 7
               = (take 7 (buf_bytes mem) = map of_char ''BLENDER'')"
    using l7 by (simp add: Identify_def HeaderID_def)
  show ?thesis
  proof (intro conjI impI)
    assume "take 7 (buf_bytes mem) \<noteq> map of_char ''BLENDER''"
    then have "\<not> Identify (take 7 (buf_bytes mem)) HeaderID 7" using idf by blast
    then show "ParseFile mem = Inr (MagicMismatch, start_state mem)"
      by (rule ParseFile_magic [OF ne id])
  next
    assume a: "9 \<le> length (buf_bytes mem)
            \<and> take 7 (buf_bytes mem) = map of_char ''BLENDER''
            \<and> (buf_bytes mem ! 7 = of_char CHR ''_''
               \<or> buf_bytes mem ! 7 = of_char CHR ''-''
                 \<and> buf_bytes mem ! 8 \<noteq> of_char CHR ''v'')"
    have ps: "deref_u8 mem (buf_base mem + 7) = Inr (buf_bytes mem ! 7)"
      using a by (simp add: deref_u8_base)
    have en: "deref_u8 mem (buf_base mem + 8) = Inr (buf_bytes mem ! 8)"
      using a by (simp add: deref_u8_base)
    from a have "Identify (take 7 (buf_bytes mem)) HeaderID 7" using idf by blast
    then show "ParseFile mem = Inr (UnsupportedVariant, start_state mem)"
      using a by (intro ParseFile_variant [OF ne id _ ps en]) blast+
  next
    show "m_blockArray (start_state mem) = []" by (simp add: start_state_def)
  qed
qed

theorem header_errors_witness:
  "ParseFile \<lparr>buf_base = 4096, buf_bytes = map of_char ''NOTABLE-v300''\<rparr>
     = Inr (MagicMismatch,
            start_state \<lparr>buf_base = 4096, buf_bytes = map of_char ''NOTABLE-v300''\<rparr>)
   \<and> ParseFile \<lparr>buf_base = 4096, buf_bytes = map of_char ''BLENDER_v300''\<rparr>
     = Inr (UnsupportedVariant,
            start_state \<lparr>buf_base = 4096, buf_bytes = map of_char ''BLENDER_v300''\<rparr>)
   \<and> ParseFile \<lparr>buf_base = 4096, buf_bytes = map of_char ''BLENDER-V300''\<rparr>
     = Inr (UnsupportedVariant,
            start_state \<lparr>buf_base = 4096, buf_bytes = map of_char ''BLENDER-V300''\<rparr>)"
  using header_errors [of "\<lparr>buf_base = 4096, buf_bytes = map of_char ''NOTABLE-v300''\<rparr>"]
    header_errors [of "\<lparr>buf_base = 4096, buf_bytes = map of_char ''BLENDER_v300''\<rparr>"]
    header_errors [of "\<lparr>buf_base = 4096, buf_bytes = map of_char ''BLENDER-V300''\<rparr>"]
  by simp

section \<open>The block loop\<close>

lemma ParseFile_loop_unfold:
  "ParseFile_loop mem ms pid st =
     (if Empty ms then Inr st
      else
        (case deref_FileBlockDesc64 mem (span_begin ms) of
           Inl e \<Rightarrow> Inl e
         | Inr d \<Rightarrow>
             if Identify (d_code d) BlockDATA 4 then
               (case pid of
                  None \<Rightarrow> Inl AssertFailed
                | Some p \<Rightarrow>
                    if p < Suc (length (m_blockArray st)) then
                      ParseFile_loop mem (next_span ms d) pid
                        (push_child (push_block st (block_at st ms d)) p (block_at st ms d))
                    else Inl OutOfRange)
             else if Identify (d_code d) BlockSDNA 4 then
               (case ParseSDNA mem d (Advance ms 24) (push_block st (block_at st ms d)) of
                  Inl e \<Rightarrow> Inl e
                | Inr st2 \<Rightarrow>
                    ParseFile_loop mem (next_span ms d) (Some (length (m_blockArray st2) - 1)) st2)
             else if Identify (d_code d) EOBMark 4 then Inr (push_block st (block_at st ms d))
             else ParseFile_loop mem (next_span ms d) (Some (length (m_blockArray st)))
                    (push_block st (block_at st ms d))))"
  by (subst ParseFile_loop.simps)
     (simp add: ReadTypePtr_def block_at_def next_span_def push_block_def push_child_def
        Advance_def Let_def split: sum.splits option.splits)

lemma next_span_end [simp]: "span_end (next_span ms d) = span_end ms"
  by (simp add: next_span_def Align4_def Advance_def Let_def)

lemma Align4_begin: "span_begin s \<le> span_begin (Align4 s)"
proof -
  have "span_begin s mod 4 < 4" by simp
  then show ?thesis
    unfolding Align4_def Advance_def Let_def by (cases "span_begin s mod 4 = 0") simp_all
qed

lemma next_span_begin: "span_begin ms + 24 \<le> span_begin (next_span ms d)"
  using Align4_begin [of "Advance (Advance ms 24) (unat (d_size d))"]
  by (simp add: next_span_def Advance_def)

lemma next_span_less:
  "\<not> Empty ms \<Longrightarrow>
     span_end (next_span ms d) - span_begin (next_span ms d) < span_end ms - span_begin ms"
  using next_span_begin [of ms d] by (simp add: Empty_def)

lemma ParseSDNA_keeps:
  "ParseSDNA mem d s st = Inr st2 \<Longrightarrow>
     m_blockArray st2 = m_blockArray st \<and> m_fileSpan st2 = m_fileSpan st"
  by (auto simp: ParseSDNA_def split: sum.splits prod.splits)

lemma ParseFile_loop_rule:
  assumes run: "ParseFile_loop mem ms pid st = Inr st'"
    and init: "I ms pid st"
    and data: "\<And>ms pid st d p. I ms pid st \<Longrightarrow> \<not> Empty ms \<Longrightarrow>
        deref_FileBlockDesc64 mem (span_begin ms) = Inr d \<Longrightarrow>
        Identify (d_code d) BlockDATA 4 \<Longrightarrow> pid = Some p \<Longrightarrow> p < Suc (length (m_blockArray st)) \<Longrightarrow>
        I (next_span ms d) pid (push_child (push_block st (block_at st ms d)) p (block_at st ms d))"
    and sdna: "\<And>ms pid st d st2. I ms pid st \<Longrightarrow> \<not> Empty ms \<Longrightarrow>
        deref_FileBlockDesc64 mem (span_begin ms) = Inr d \<Longrightarrow>
        \<not> Identify (d_code d) BlockDATA 4 \<Longrightarrow> Identify (d_code d) BlockSDNA 4 \<Longrightarrow>
        ParseSDNA mem d (Advance ms 24) (push_block st (block_at st ms d)) = Inr st2 \<Longrightarrow>
        I (next_span ms d) (Some (length (m_blockArray st2) - 1)) st2"
    and plain: "\<And>ms pid st d. I ms pid st \<Longrightarrow> \<not> Empty ms \<Longrightarrow>
        deref_FileBlockDesc64 mem (span_begin ms) = Inr d \<Longrightarrow>
        \<not> Identify (d_code d) BlockDATA 4 \<Longrightarrow> \<not> Identify (d_code d) BlockSDNA 4 \<Longrightarrow>
        \<not> Identify (d_code d) EOBMark 4 \<Longrightarrow>
        I (next_span ms d) (Some (length (m_blockArray st))) (push_block st (block_at st ms d))"
    and at_end: "\<And>ms pid st. I ms pid st \<Longrightarrow> Empty ms \<Longrightarrow> Q st"
    and at_mark: "\<And>ms pid st d. I ms pid st \<Longrightarrow> \<not> Empty ms \<Longrightarrow>
        deref_FileBlockDesc64 mem (span_begin ms) = Inr d \<Longrightarrow>
        \<not> Identify (d_code d) BlockDATA 4 \<Longrightarrow> \<not> Identify (d_code d) BlockSDNA 4 \<Longrightarrow>
        Identify (d_code d) EOBMark 4 \<Longrightarrow> Q (push_block st (block_at st ms d))"
  shows "Q st'"
  using run init
proof (induction "span_end ms - span_begin ms" arbitrary: ms pid st rule: less_induct)
  case less
  show ?case
  proof (cases "Empty ms")
    case True
    then have "st' = st" using less.prems(1) by (subst (asm) ParseFile_loop_unfold) simp
    then show ?thesis using at_end [OF less.prems(2) True] by simp
  next
    case False
    note smaller = next_span_less [OF False]
    from less.prems(1) False obtain d where
      d: "deref_FileBlockDesc64 mem (span_begin ms) = Inr d"
      by (subst (asm) ParseFile_loop_unfold) (auto split: sum.splits)
    consider (DATA) "Identify (d_code d) BlockDATA 4"
      | (SDNA) "\<not> Identify (d_code d) BlockDATA 4" "Identify (d_code d) BlockSDNA 4"
      | (EOB) "\<not> Identify (d_code d) BlockDATA 4" "\<not> Identify (d_code d) BlockSDNA 4"
              "Identify (d_code d) EOBMark 4"
      | (other) "\<not> Identify (d_code d) BlockDATA 4" "\<not> Identify (d_code d) BlockSDNA 4"
              "\<not> Identify (d_code d) EOBMark 4"
      by blast
    then show ?thesis
    proof cases
      case DATA
      from less.prems(1) False d DATA obtain p where p: "pid = Some p"
        "p < Suc (length (m_blockArray st))"
        and r: "ParseFile_loop mem (next_span ms d) pid
                  (push_child (push_block st (block_at st ms d)) p (block_at st ms d)) = Inr st'"
        by (subst (asm) ParseFile_loop_unfold) (auto split: option.splits if_splits)
      show ?thesis
        by (rule less.hyps [OF smaller r data [OF less.prems(2) False d DATA p]])
    next
      case SDNA
      from less.prems(1) False d SDNA obtain st2 where
        st2: "ParseSDNA mem d (Advance ms 24) (push_block st (block_at st ms d)) = Inr st2"
        and r: "ParseFile_loop mem (next_span ms d) (Some (length (m_blockArray st2) - 1)) st2
                  = Inr st'"
        by (subst (asm) ParseFile_loop_unfold) (auto split: sum.splits)
      show ?thesis
        by (rule less.hyps [OF smaller r sdna [OF less.prems(2) False d SDNA st2]])
    next
      case EOB
      from less.prems(1) False d EOB have "st' = push_block st (block_at st ms d)"
        by (subst (asm) ParseFile_loop_unfold) simp
      then show ?thesis using at_mark [OF less.prems(2) False d EOB] by simp
    next
      case other
      from less.prems(1) False d other have
        r: "ParseFile_loop mem (next_span ms d) (Some (length (m_blockArray st)))
              (push_block st (block_at st ms d)) = Inr st'"
        by (subst (asm) ParseFile_loop_unfold) simp
      show ?thesis
        by (rule less.hyps [OF smaller r plain [OF less.prems(2) False d other]])
    qed
  qed
qed

lemma EOB_not_DATA: "Identify c EOBMark 4 \<Longrightarrow> \<not> Identify c BlockDATA 4"
  by (auto simp: Identify_def EOBMark_def BlockDATA_def)

lemma EOB_not_SDNA: "Identify c EOBMark 4 \<Longrightarrow> \<not> Identify c BlockSDNA 4"
  by (auto simp: Identify_def EOBMark_def BlockSDNA_def)

lemma desc_block_at [simp]: "desc (block_at st ms d) = d"
  by (simp add: block_at_def)

lemma blocks_push_block [simp]:
  "m_blockArray (push_block st b) = m_blockArray st @ [b]"
  by (simp add: push_block_def)

lemma blocks_push_child [simp]:
  "m_blockArray (push_child st p b)
     = (m_blockArray st)[p := emplace_child (m_blockArray st ! p) b]"
  by (simp add: push_child_def)

lemma fileSpan_push [simp]:
  "m_fileSpan (push_block st b) = m_fileSpan st"
  "m_fileSpan (push_child st p b) = m_fileSpan st"
  by (simp_all add: push_block_def push_child_def)

lemma desc_emplace_child [simp]: "desc (emplace_child parent b) = desc parent"
  by (simp add: emplace_child_def)

lemma in_set_update_child:
  "b \<in> set (xs[p := emplace_child (xs ! p) c]) \<Longrightarrow> \<exists>x\<in>set xs. desc b = desc x"
proof (cases "p < length xs")
  case True
  assume "b \<in> set (xs[p := emplace_child (xs ! p) c])"
  then have "b = emplace_child (xs ! p) c \<or> b \<in> set xs"
    using set_update_subset_insert [of xs p] by auto
  then show ?thesis using True by auto
next
  case False
  assume "b \<in> set (xs[p := emplace_child (xs ! p) c])"
  then have "b \<in> set xs" using False by (simp add: list_update_beyond)
  then show ?thesis by blast
qed


lemma ParseFile_Parsed_loop:
  "ParseFile mem = Inr (Parsed, st') \<Longrightarrow>
     ParseFile_loop mem (Advance (m_fileSpan (start_state mem)) 12) None (start_state mem) = Inr st'"
  by (auto simp: ParseFile_def ReadTypePtr_def Let_def split: if_splits sum.splits)

lemma bare_block_at [simp]: "bare (block_at st ms d) = block_at st ms d"
  by (simp add: bare_def with_children_def block_at_def)

lemma bare_emplace_child [simp]: "bare (emplace_child p b) = bare p"
  by (simp add: bare_def with_children_def emplace_child_def)

lemma is_end_mark_bare [simp]: "is_end_mark (bare b) = is_end_mark b"
  by (simp add: bare_def with_children_def is_end_mark_def)

lemma map_bare_update_child:
  "map bare (xs[p := emplace_child (xs ! p) c]) = map bare xs"
  by (cases "p < length xs") (simp_all add: map_update list_update_same_conv list_update_beyond)

lemma upto_end_mark_Cons:
  "upto_end_mark (b # bs) = (if is_end_mark b then [b] else b # upto_end_mark bs)"
  by (simp add: upto_end_mark_def)

lemma block_at_fileSpan:
  "m_fileSpan st = m_fileSpan st' \<Longrightarrow> block_at st ms d = block_at st' ms d"
  by (simp add: block_at_def)

lemma file_chunks_Empty: "Empty ms \<Longrightarrow> file_chunks mem ms = []"
  by (subst file_chunks.simps) simp

lemma file_chunks_step:
  "\<not> Empty ms \<Longrightarrow> deref_FileBlockDesc64 mem (span_begin ms) = Inr d \<Longrightarrow>
     file_chunks mem ms = block_at (start_state mem) ms d # file_chunks mem (next_span ms d)"
  by (subst file_chunks.simps) simp

lemma loop_chunks:
  assumes run: "ParseFile_loop mem ms pid st = Inr st'"
    and init: "chunk_inv mem cs ms st"
  shows "map bare (m_blockArray st') = cs"
proof (rule ParseFile_loop_rule [OF run,
      where I = "\<lambda>ms pid st. chunk_inv mem cs ms st"
        and Q = "\<lambda>st'. map bare (m_blockArray st') = cs"])
  show "chunk_inv mem cs ms st" by (rule init)
next
  fix ms :: MemorySpan and pid :: "nat option" and st :: blendExpl
    and d :: FileBlockDesc64 and p :: nat
  assume I: "chunk_inv mem cs ms st" and ne: "\<not> Empty ms"
    and d: "deref_FileBlockDesc64 mem (span_begin ms) = Inr d"
    and D: "Identify (d_code d) BlockDATA 4"
  have new: "\<not> is_end_mark (block_at st ms d)"
    using D EOB_not_DATA by (auto simp: is_end_mark_def)
  have same: "block_at (start_state mem) ms d = block_at st ms d"
    using I by (simp add: chunk_inv_def block_at_def)
  have no: "\<forall>b\<in>set (m_blockArray (push_child (push_block st (block_at st ms d)) p (block_at st ms d))).
          \<not> is_end_mark b"
    using I new by (auto dest!: in_set_update_child simp: is_end_mark_def chunk_inv_def)
  show "chunk_inv mem cs (next_span ms d)
          (push_child (push_block st (block_at st ms d)) p (block_at st ms d))"
    using I new no unfolding chunk_inv_def file_chunks_step [OF ne d] same
    by (simp add: map_bare_update_child upto_end_mark_Cons)
next
  fix ms :: MemorySpan and pid :: "nat option" and st :: blendExpl
    and d :: FileBlockDesc64 and st2 :: blendExpl
  assume I: "chunk_inv mem cs ms st" and ne: "\<not> Empty ms"
    and d: "deref_FileBlockDesc64 mem (span_begin ms) = Inr d"
    and S: "Identify (d_code d) BlockSDNA 4"
    and P: "ParseSDNA mem d (Advance ms 24) (push_block st (block_at st ms d)) = Inr st2"
  have new: "\<not> is_end_mark (block_at st ms d)"
    using S EOB_not_SDNA by (auto simp: is_end_mark_def)
  have same: "block_at (start_state mem) ms d = block_at st ms d"
    using I by (simp add: chunk_inv_def block_at_def)
  show "chunk_inv mem cs (next_span ms d) st2"
    using I new ParseSDNA_keeps [OF P] unfolding chunk_inv_def file_chunks_step [OF ne d] same
    by (simp add: upto_end_mark_Cons)
next
  fix ms :: MemorySpan and pid :: "nat option" and st :: blendExpl
    and d :: FileBlockDesc64
  assume I: "chunk_inv mem cs ms st" and ne: "\<not> Empty ms"
    and d: "deref_FileBlockDesc64 mem (span_begin ms) = Inr d"
    and E: "\<not> Identify (d_code d) EOBMark 4"
  have new: "\<not> is_end_mark (block_at st ms d)"
    using E by (auto simp: is_end_mark_def)
  have same: "block_at (start_state mem) ms d = block_at st ms d"
    using I by (simp add: chunk_inv_def block_at_def)
  show "chunk_inv mem cs (next_span ms d) (push_block st (block_at st ms d))"
    using I new unfolding chunk_inv_def file_chunks_step [OF ne d] same
    by (simp add: upto_end_mark_Cons)
next
  fix ms :: MemorySpan and pid :: "nat option" and st :: blendExpl
  assume "chunk_inv mem cs ms st" and "Empty ms"
  then show "map bare (m_blockArray st) = cs"
    by (simp add: chunk_inv_def file_chunks_Empty upto_end_mark_def)
next
  fix ms :: MemorySpan and pid :: "nat option" and st :: blendExpl
    and d :: FileBlockDesc64
  assume I: "chunk_inv mem cs ms st" and ne: "\<not> Empty ms"
    and d: "deref_FileBlockDesc64 mem (span_begin ms) = Inr d"
    and E: "Identify (d_code d) EOBMark 4"
  have new: "is_end_mark (block_at st ms d)"
    using E by (auto simp: is_end_mark_def)
  have same: "block_at (start_state mem) ms d = block_at st ms d"
    using I by (simp add: chunk_inv_def block_at_def)
  show "map bare (m_blockArray (push_block st (block_at st ms d))) = cs"
    using I new unfolding chunk_inv_def file_chunks_step [OF ne d] same
    by (simp add: upto_end_mark_Cons)
qed

lemma parsed_chunks:
  assumes "ParseFile mem = Inr (Parsed, st)"
  shows "map bare (m_blockArray st) = upto_end_mark (file_chunks mem (chunk_span mem))"
proof -
  have run: "ParseFile_loop mem (chunk_span mem) None (start_state mem) = Inr st"
    using assms unfolding chunk_span_def by (rule ParseFile_Parsed_loop)
  show ?thesis
    by (rule loop_chunks [OF run]) (simp add: chunk_inv_def start_state_def)
qed






lemma length_resize_vec [simp]: "length (resize_vec xs n d) = n"
  by (simp add: resize_vec_def)












section \<open>Grouping of the data blocks\<close>

lemma is_data_with_children [simp]: "is_data (with_children b ks) = is_data b"
  by (simp add: is_data_def with_children_def)

lemma flatten_groups_Cons:
  "flatten_groups ((parent, kids) # gs) = with_children parent kids # kids @ flatten_groups gs"
  by (simp add: flatten_groups_def)

lemma flatten_groups_snoc:
  "flatten_groups (gs @ [(parent, kids)]) = flatten_groups gs @ with_children parent kids # kids"
  by (simp add: flatten_groups_def)

lemma flatten_groups_head:
  "groups_ok gs \<Longrightarrow> flatten_groups gs = [] \<or> \<not> is_data (hd (flatten_groups gs))"
  by (cases gs) (auto simp: flatten_groups_Cons groups_ok_def flatten_groups_def)

lemma takeWhile_run:
  assumes "\<forall>k\<in>set ks. P k" "rest = [] \<or> \<not> P (hd rest)"
  shows "takeWhile P (ks @ rest) = ks"
proof -
  have "takeWhile P rest = []" using assms(2) by (cases rest) auto
  then show ?thesis using assms(1) by (simp add: takeWhile_append2)
qed

lemma dropWhile_run:
  assumes "\<forall>k\<in>set ks. P k" "rest = [] \<or> \<not> P (hd rest)"
  shows "dropWhile P (ks @ rest) = rest"
proof -
  have "dropWhile P rest = rest" using assms(2) by (cases rest) auto
  then show ?thesis using assms(1) by (simp add: dropWhile_append2)
qed

lemma grouped_flatten: "groups_ok gs \<Longrightarrow> grouped (flatten_groups gs)"
proof (induction gs)
  case Nil
  then show ?case by (simp add: flatten_groups_def)
next
  case (Cons g gs)
  obtain parent kids where g: "g = (parent, kids)" by (cases g)
  have ok: "groups_ok gs" and np: "\<not> is_data parent"
    and kids: "\<forall>k\<in>set kids. is_data k" "\<forall>k\<in>set kids. childBlocks k = []"
    using Cons.prems g by (auto simp: groups_ok_def)
  have hd: "flatten_groups gs = [] \<or> \<not> is_data (hd (flatten_groups gs))"
    using flatten_groups_head [OF ok] .
  have tw: "takeWhile is_data (kids @ flatten_groups gs) = kids"
    using takeWhile_run [OF kids(1) hd] .
  have dw: "dropWhile is_data (kids @ flatten_groups gs) = flatten_groups gs"
    using dropWhile_run [OF kids(1) hd] .
  show ?case
    using np kids(2) Cons.IH [OF ok]
    by (simp add: g flatten_groups_Cons tw dw) (simp add: with_children_def)
qed

lemma childBlocks_block_at [simp]: "childBlocks (block_at st ms d) = []"
  by (simp add: block_at_def)

lemma fileOffset_block_at [simp]:
  "fileOffset (block_at st ms d) = int (span_begin ms) - int (span_begin (m_fileSpan st))"
  by (simp add: block_at_def)

lemma with_children_own: "with_children b (childBlocks b) = b"
  by (cases b) (simp add: with_children_def)

lemma emplace_with_children:
  "emplace_child (with_children parent kids) b = with_children parent (kids @ [b])"
  by (simp add: emplace_child_def with_children_def)

lemma snoc_update_mid:
  "(xs @ y # ys @ [b])[length xs := y'] = xs @ y' # ys @ [b]"
  by (simp add: list_update_append)

lemma group_inv_data:
  assumes inv: "group_inv (Some p) st" and d: "is_data b" "childBlocks b = []"
  shows "group_inv (Some p) (push_child (push_block st b) p b)"
proof -
  from inv obtain gs where gs: "m_blockArray st = flatten_groups gs" "groups_ok gs"
    "Some p = (if gs = [] then None else Some (length (flatten_groups (butlast gs))))"
    by (auto simp: group_inv_def)
  then have ne: "gs \<noteq> []" by (auto split: if_splits)
  then obtain gs' parent kids where sp: "gs = gs' @ [(parent, kids)]"
    by (metis rev_exhaust surj_pair)
  have p: "p = length (flatten_groups gs')" using gs(3) sp by simp
  have bs: "m_blockArray st = flatten_groups gs' @ with_children parent kids # kids"
    using gs(1) sp by (simp add: flatten_groups_snoc)
  have at: "(m_blockArray st @ [b]) ! p = with_children parent kids"
    by (simp add: bs p nth_append)
  have "m_blockArray (push_child (push_block st b) p b)
      = (flatten_groups gs' @ with_children parent kids # kids @ [b])
          [length (flatten_groups gs') := with_children parent (kids @ [b])]"
    using at by (simp add: emplace_with_children) (simp add: bs p)
  also have "\<dots> = flatten_groups (gs' @ [(parent, kids @ [b])])"
    by (simp only: snoc_update_mid flatten_groups_snoc)
  finally have eq: "m_blockArray (push_child (push_block st b) p b)
      = flatten_groups (gs' @ [(parent, kids @ [b])])" .
  have ok: "groups_ok (gs' @ [(parent, kids @ [b])])"
    using gs(2) d by (auto simp: groups_ok_def sp)
  show ?thesis
    unfolding group_inv_def
  proof (intro exI conjI)
    show "m_blockArray (push_child (push_block st b) p b)
            = flatten_groups (gs' @ [(parent, kids @ [b])])" by (rule eq)
    show "groups_ok (gs' @ [(parent, kids @ [b])])" by (rule ok)
    show "Some p = (if gs' @ [(parent, kids @ [b])] = [] then None
                    else Some (length (flatten_groups (butlast (gs' @ [(parent, kids @ [b])])))))"
      using p by simp
  qed
qed

lemma group_inv_new:
  assumes inv: "group_inv pid st" and d: "\<not> is_data b" "childBlocks b = []"
    and bs: "m_blockArray st2 = m_blockArray st @ [b]"
  shows "group_inv (Some (length (m_blockArray st))) st2"
proof -
  from inv obtain gs where gs: "m_blockArray st = flatten_groups gs" "groups_ok gs"
    by (auto simp: group_inv_def)
  have b: "with_children b [] = b" using with_children_own [of b] d(2) by simp
  have eq: "m_blockArray st2 = flatten_groups (gs @ [(b, [])])"
    by (simp add: bs gs(1) flatten_groups_snoc b)
  have ok: "groups_ok (gs @ [(b, [])])"
    using gs(2) d(1) by (auto simp: groups_ok_def)
  show ?thesis
    unfolding group_inv_def
  proof (intro exI conjI)
    show "m_blockArray st2 = flatten_groups (gs @ [(b, [])])" by (rule eq)
    show "groups_ok (gs @ [(b, [])])" by (rule ok)
    show "Some (length (m_blockArray st))
            = (if gs @ [(b, [])] = [] then None
               else Some (length (flatten_groups (butlast (gs @ [(b, [])])))))"
      using gs(1) by simp
  qed
qed

lemma group_inv_grouped: "group_inv pid st \<Longrightarrow> grouped (m_blockArray st)"
  by (auto simp: group_inv_def grouped_flatten)

lemma loop_grouped:
  assumes run: "ParseFile_loop mem ms pid st = Inr st'" and inv: "group_inv pid st"
  shows "grouped (m_blockArray st')"
proof (rule ParseFile_loop_rule [OF run,
      where I = "\<lambda>ms pid st. group_inv pid st" and Q = "\<lambda>st. grouped (m_blockArray st)"])
  show "group_inv pid st" by (rule inv)
next
  fix ms :: MemorySpan and pid :: "nat option" and st :: blendExpl
    and d :: FileBlockDesc64 and p :: nat
  assume "group_inv pid st" "Identify (d_code d) BlockDATA 4" "pid = Some p"
  then show "group_inv pid (push_child (push_block st (block_at st ms d)) p (block_at st ms d))"
    using group_inv_data [of p st "block_at st ms d"] by (simp add: is_data_def)
next
  fix ms :: MemorySpan and pid :: "nat option" and st :: blendExpl
    and d :: FileBlockDesc64 and st2 :: blendExpl
  assume I: "group_inv pid st" and D: "\<not> Identify (d_code d) BlockDATA 4"
    and P: "ParseSDNA mem d (Advance ms 24) (push_block st (block_at st ms d)) = Inr st2"
  have bs: "m_blockArray st2 = m_blockArray st @ [block_at st ms d]"
    using ParseSDNA_keeps [OF P] by simp
  show "group_inv (Some (length (m_blockArray st2) - 1)) st2"
    using group_inv_new [OF I _ _ bs] D by (simp add: is_data_def bs)
next
  fix ms :: MemorySpan and pid :: "nat option" and st :: blendExpl
    and d :: FileBlockDesc64
  assume I: "group_inv pid st" and D: "\<not> Identify (d_code d) BlockDATA 4"
  show "group_inv (Some (length (m_blockArray st))) (push_block st (block_at st ms d))"
    using group_inv_new [OF I, of "block_at st ms d" "push_block st (block_at st ms d)"] D
    by (simp add: is_data_def)
next
  fix ms :: MemorySpan and pid :: "nat option" and st :: blendExpl
  assume "group_inv pid st"
  then show "grouped (m_blockArray st)" by (rule group_inv_grouped)
next
  fix ms :: MemorySpan and pid :: "nat option" and st :: blendExpl
    and d :: FileBlockDesc64
  assume I: "group_inv pid st" and D: "\<not> Identify (d_code d) BlockDATA 4"
  have "group_inv (Some (length (m_blockArray st))) (push_block st (block_at st ms d))"
    using group_inv_new [OF I, of "block_at st ms d" "push_block st (block_at st ms d)"] D
    by (simp add: is_data_def)
  then show "grouped (m_blockArray (push_block st (block_at st ms d)))"
    by (rule group_inv_grouped)
qed

lemma fileOffset_emplace_child [simp]: "fileOffset (emplace_child parent b) = fileOffset parent"
  by (simp add: emplace_child_def)

lemma map_fileOffset_update_child:
  "map fileOffset (xs[p := emplace_child (xs ! p) c]) = map fileOffset xs"
proof (rule nth_equalityI)
  show "length (map fileOffset (xs[p := emplace_child (xs ! p) c])) = length (map fileOffset xs)"
    by simp
next
  fix i
  assume "i < length (map fileOffset (xs[p := emplace_child (xs ! p) c]))"
  then have "i < length xs" by simp
  then show "map fileOffset (xs[p := emplace_child (xs ! p) c]) ! i = map fileOffset xs ! i"
    by (cases "i = p") simp_all
qed

lemma offset_inv_push:
  assumes "offset_inv fs ms st"
  shows "offset_inv fs (next_span ms d) (push_block st (block_at st ms d))"
  using assms next_span_begin [of ms d]
  by (auto simp: offset_inv_def sorted_wrt_append)

lemma offset_inv_child:
  "offset_inv fs ms st \<Longrightarrow> offset_inv fs ms (push_child st p b)"
  by (simp add: offset_inv_def map_fileOffset_update_child)

lemma offset_inv_same:
  "m_blockArray st2 = m_blockArray st \<Longrightarrow> m_fileSpan st2 = m_fileSpan st \<Longrightarrow>
     offset_inv fs ms st \<Longrightarrow> offset_inv fs ms st2"
  by (simp add: offset_inv_def)

lemma loop_offsets:
  assumes run: "ParseFile_loop mem ms pid st = Inr st'" and inv: "offset_inv fs ms st"
  shows "sorted_wrt (<) (map fileOffset (m_blockArray st'))"
proof (rule ParseFile_loop_rule [OF run,
      where I = "\<lambda>ms pid st. offset_inv fs ms st"
        and Q = "\<lambda>st. sorted_wrt (<) (map fileOffset (m_blockArray st))"])
  show "offset_inv fs ms st" by (rule inv)
next
  fix ms :: MemorySpan and pid :: "nat option" and st :: blendExpl
    and d :: FileBlockDesc64 and p :: nat
  assume "offset_inv fs ms st"
  then show "offset_inv fs (next_span ms d)
      (push_child (push_block st (block_at st ms d)) p (block_at st ms d))"
    by (intro offset_inv_child offset_inv_push)
next
  fix ms :: MemorySpan and pid :: "nat option" and st :: blendExpl
    and d :: FileBlockDesc64 and st2 :: blendExpl
  assume I: "offset_inv fs ms st"
    and P: "ParseSDNA mem d (Advance ms 24) (push_block st (block_at st ms d)) = Inr st2"
  show "offset_inv fs (next_span ms d) st2"
    using ParseSDNA_keeps [OF P] offset_inv_push [OF I, of d]
    by (intro offset_inv_same [of st2 "push_block st (block_at st ms d)"]) simp_all
next
  fix ms :: MemorySpan and pid :: "nat option" and st :: blendExpl
    and d :: FileBlockDesc64
  assume "offset_inv fs ms st"
  then show "offset_inv fs (next_span ms d) (push_block st (block_at st ms d))"
    by (rule offset_inv_push)
next
  fix ms :: MemorySpan and pid :: "nat option" and st :: blendExpl
  assume "offset_inv fs ms st"
  then show "sorted_wrt (<) (map fileOffset (m_blockArray st))"
    unfolding offset_inv_def by blast
next
  fix ms :: MemorySpan and pid :: "nat option" and st :: blendExpl
    and d :: FileBlockDesc64
  assume "offset_inv fs ms st"
  then have "offset_inv fs (next_span ms d) (push_block st (block_at st ms d))"
    by (rule offset_inv_push)
  then show "sorted_wrt (<) (map fileOffset (m_blockArray (push_block st (block_at st ms d))))"
    unfolding offset_inv_def by blast
qed

lemma grouped_children_subset:
  "grouped bs \<Longrightarrow> b \<in> set bs \<Longrightarrow> set (childBlocks b) \<subseteq> set bs"
proof (induction bs rule: grouped.induct)
  case 1
  then show ?case by simp
next
  case (2 c bs)
  have split: "bs = takeWhile is_data bs @ dropWhile is_data bs" by simp
  consider "b = c" | "b \<in> set (takeWhile is_data bs)" | "b \<in> set (dropWhile is_data bs)"
    using "2.prems"(2) split by (metis Un_iff set_ConsD set_append)
  then show ?case
  proof cases
    case 1
    then show ?thesis using "2.prems"(1) set_takeWhileD by fastforce
  next
    case 2
    then show ?thesis using "2.prems"(1) by simp
  next
    case 3
    then have "set (childBlocks b) \<subseteq> set (dropWhile is_data bs)"
      using "2.IH" "2.prems"(1) by simp
    then show ?thesis using set_dropWhileD by fastforce
  qed
qed

lemma filter_none: "\<forall>x\<in>set xs. \<not> P x \<Longrightarrow> filter P xs = []"
  by (induction xs) auto

lemma grouped_one_parent:
  "grouped bs \<Longrightarrow> distinct bs \<Longrightarrow> d \<in> set bs \<Longrightarrow> is_data d \<Longrightarrow>
     length (filter (\<lambda>b. d \<in> set (childBlocks b)) bs) = 1"
proof (induction bs rule: grouped.induct)
  case 1
  then show ?case by simp
next
  case (2 c bs)
  let ?K = "takeWhile is_data bs" and ?R = "dropWhile is_data bs"
  let ?P = "\<lambda>b. d \<in> set (childBlocks b)"
  have split: "bs = ?K @ ?R" by simp
  have g: "\<not> is_data c" "childBlocks c = ?K" "\<forall>k\<in>set ?K. childBlocks k = []" "grouped ?R"
    using "2.prems"(1) by simp_all
  have dist: "distinct ?K" "distinct ?R" "set ?K \<inter> set ?R = {}"
    using "2.prems"(2) split by (metis distinct.simps(2) distinct_append)+
  have fK: "filter ?P ?K = []" using g(3) by (intro filter_none) simp
  have fbs: "filter ?P bs = filter ?P ?R"
    using fK by (subst split) (simp only: filter_append, simp)
  have dbs: "d \<in> set bs" using "2.prems"(3,4) g(1) by auto
  show ?case
  proof (cases "d \<in> set ?K")
    case True
    then have "d \<notin> set ?R" using dist(3) by blast
    then have "\<forall>r\<in>set ?R. \<not> ?P r"
      using grouped_children_subset [OF g(4)] by blast
    then have "filter ?P ?R = []" by (rule filter_none)
    then show ?thesis using True g(2) fbs by simp
  next
    case False
    then have dR: "d \<in> set ?R" using dbs split by (metis Un_iff set_append)
    have "length (filter ?P ?R) = 1"
      using "2.IH" g(4) dist(2) dR "2.prems"(4) by simp
    then show ?thesis using False g(2) fbs by simp
  qed
qed

lemma takeWhile_covers:
  "m < length xs \<Longrightarrow> \<forall>k\<le>m. P (xs ! k) \<Longrightarrow> m < length (takeWhile P xs)"
proof (rule ccontr)
  assume m: "m < length xs" and all: "\<forall>k\<le>m. P (xs ! k)"
    and "\<not> m < length (takeWhile P xs)"
  then have le: "length (takeWhile P xs) \<le> m" by simp
  then have "length (takeWhile P xs) < length xs" using m by simp
  then have "\<not> P (xs ! length (takeWhile P xs))" by (rule nth_length_takeWhile)
  then show False using all le by blast
qed

lemma grouped_nearest:
  "grouped bs \<Longrightarrow> j < i \<Longrightarrow> i < length bs \<Longrightarrow> \<not> is_data (bs ! j) \<Longrightarrow>
   \<forall>k. j < k \<and> k \<le> i \<longrightarrow> is_data (bs ! k) \<Longrightarrow> bs ! i \<in> set (childBlocks (bs ! j))"
proof (induction bs arbitrary: i j rule: grouped.induct)
  case 1
  then show ?case by simp
next
  case (2 c bs)
  let ?K = "takeWhile is_data bs" and ?R = "dropWhile is_data bs"
  have g: "childBlocks c = ?K" "grouped ?R" using "2.prems"(1) by simp_all
  obtain i' where i': "i = Suc i'" using "2.prems"(2) by (cases i) auto
  have il: "i' < length bs" using "2.prems"(3) i' by simp
  show ?case
  proof (cases j)
    case 0
    have "\<forall>k\<le>i'. is_data (bs ! k)"
    proof (intro allI impI)
      fix k assume "k \<le> i'"
      then have "0 < Suc k \<and> Suc k \<le> i" using i' by simp
      then have "is_data ((c # bs) ! Suc k)" using "2.prems"(5) 0 by blast
      then show "is_data (bs ! k)" by simp
    qed
    then have "i' < length ?K" using il by (intro takeWhile_covers) simp_all
    then have "bs ! i' \<in> set ?K" by (metis nth_mem takeWhile_nth)
    then show ?thesis using 0 i' g(1) by simp
  next
    case (Suc j')
    have nd: "\<not> is_data (bs ! j')" using "2.prems"(4) Suc by simp
    have jl: "j' < length bs" using "2.prems"(2) il i' Suc by simp
    have kj: "length ?K \<le> j'"
    proof (rule ccontr)
      assume "\<not> length ?K \<le> j'"
      then have lt: "j' < length ?K" by simp
      then have "?K ! j' \<in> set ?K" by simp
      then have "is_data (?K ! j')" by (auto dest: set_takeWhileD)
      then show False using nd takeWhile_nth [OF lt] by simp
    qed
    have split: "bs = ?K @ ?R" by simp
    have nthR: "bs ! n = ?R ! (n - length ?K)" if "length ?K \<le> n" for n
      using that by (subst split) (simp only: nth_append, simp)
    have lenR: "length bs = length ?K + length ?R"
      by (subst split) (simp only: length_append)
    have "?R ! (i' - length ?K) \<in> set (childBlocks (?R ! (j' - length ?K)))"
    proof (rule "2.IH" [OF g(2)])
      show "j' - length ?K < i' - length ?K" using "2.prems"(2) i' Suc kj by simp
      show "i' - length ?K < length ?R" using il lenR kj "2.prems"(2) i' Suc by simp
      show "\<not> is_data (?R ! (j' - length ?K))" using nd nthR [OF kj] by simp
      show "\<forall>k. j' - length ?K < k \<and> k \<le> i' - length ?K \<longrightarrow> is_data (?R ! k)"
      proof (intro allI impI)
        fix k assume k: "j' - length ?K < k \<and> k \<le> i' - length ?K"
        then have "Suc j' < Suc (k + length ?K) \<and> Suc (k + length ?K) \<le> i"
          using kj i' by auto
        then have "is_data ((c # bs) ! Suc (k + length ?K))"
          using "2.prems"(5) Suc by blast
        then show "is_data (?R ! k)" using nthR [of "k + length ?K"] by simp
      qed
    qed
    then show ?thesis using i' Suc nthR [OF kj] nthR [of i'] kj "2.prems"(2) by simp
  qed
qed

lemma group_inv_init: "group_inv None (start_state mem)"
  unfolding group_inv_def
  by (rule exI [of _ "[]"]) (simp add: start_state_def flatten_groups_def groups_ok_def)

lemma offset_inv_init:
  "offset_inv (m_fileSpan (start_state mem)) (Advance (m_fileSpan (start_state mem)) 12) (start_state mem)"
  by (simp add: offset_inv_def start_state_def)

text \<open>
  C2, as the claim states it, fails: \<open>demo_file\<close> parses, and the entry at index 2 of the
  block array is a \<^verbatim>\<open>DATA\<close> block.
\<close>

theorem data_block_in_block_array: "ParseFile demo_file = Inr (Parsed, demo_state)
   \<and> Identify (d_code (desc (m_blockArray demo_state ! 2))) BlockDATA 4"
  using demo_parse by (simp add: demo_state_def Identify_def BlockDATA_def)

lemma demo_chunks:
  "file_chunks demo_file (chunk_span demo_file) = map bare (m_blockArray demo_state)"
  by (simp add: file_chunks.simps chunk_span_def block_at_def next_span_def demo_file_def eval_defs
     bare_def with_children_def demo_state_def)

text \<open>
  C2, amended. The block array of a parsed file holds every block read, \<^verbatim>\<open>DATA\<close> blocks
  included: children aside, it is the list of the blocks of the buffer up to and
  including the first end block, in the order of the file, and the recorded file offsets
  increase strictly along it. The array is grouped: each block that is not a \<^verbatim>\<open>DATA\<close>
  block has as children exactly the \<^verbatim>\<open>DATA\<close> blocks between it and the next block of
  another kind, and \<^verbatim>\<open>DATA\<close> blocks have no children. So every \<^verbatim>\<open>DATA\<close> block of the
  array is in the children of exactly one entry, and that entry is the nearest entry
  before it that is not a \<^verbatim>\<open>DATA\<close> block.
\<close>

theorem data_blocks_grouped:
  assumes "ParseFile mem = Inr (Parsed, st)"
  shows "map bare (m_blockArray st) = upto_end_mark (file_chunks mem (chunk_span mem))
       \<and> sorted_wrt (<) (map fileOffset (m_blockArray st))
       \<and> grouped (m_blockArray st)
       \<and> (\<forall>d\<in>set (m_blockArray st). is_data d \<longrightarrow>
            length (filter (\<lambda>b. d \<in> set (childBlocks b)) (m_blockArray st)) = 1)
       \<and> (\<forall>i j. j < i \<and> i < length (m_blockArray st) \<and> \<not> is_data (m_blockArray st ! j)
             \<and> (\<forall>k. j < k \<and> k \<le> i \<longrightarrow> is_data (m_blockArray st ! k))
            \<longrightarrow> m_blockArray st ! i \<in> set (childBlocks (m_blockArray st ! j)))"
proof -
  have run: "ParseFile_loop mem (Advance (m_fileSpan (start_state mem)) 12) None (start_state mem)
               = Inr st"
    using assms by (rule ParseFile_Parsed_loop)
  have c: "map bare (m_blockArray st) = upto_end_mark (file_chunks mem (chunk_span mem))"
    using assms by (rule parsed_chunks)
  have g: "grouped (m_blockArray st)"
    using loop_grouped [OF run group_inv_init] .
  have s: "sorted_wrt (<) (map fileOffset (m_blockArray st))"
    using loop_offsets [OF run offset_inv_init] .
  have "distinct (map fileOffset (m_blockArray st))"
    using s strict_sorted_iff by blast
  then have dist: "distinct (m_blockArray st)" by (simp add: distinct_map)
  have one: "\<forall>d\<in>set (m_blockArray st). is_data d \<longrightarrow>
            length (filter (\<lambda>b. d \<in> set (childBlocks b)) (m_blockArray st)) = 1"
    using g dist grouped_one_parent by blast
  have near: "\<forall>i j. j < i \<and> i < length (m_blockArray st) \<and> \<not> is_data (m_blockArray st ! j)
             \<and> (\<forall>k. j < k \<and> k \<le> i \<longrightarrow> is_data (m_blockArray st ! k))
            \<longrightarrow> m_blockArray st ! i \<in> set (childBlocks (m_blockArray st ! j))"
    using grouped_nearest [OF g] by blast
  show ?thesis using c s g one near by blast
qed

theorem data_blocks_grouped_witness:
  "ParseFile demo_file = Inr (Parsed, demo_state)
   \<and> map bare (m_blockArray demo_state) = file_chunks demo_file (chunk_span demo_file)
   \<and> map fileOffset (m_blockArray demo_state) = [12, 100, 136, 164, 188]
   \<and> map is_data (m_blockArray demo_state) = [False, False, True, False, False]
   \<and> map (map fileOffset \<circ> childBlocks) (m_blockArray demo_state) = [[], [136], [], [], []]
   \<and> grouped (m_blockArray demo_state)
   \<and> m_blockArray demo_state ! 2 \<in> set (childBlocks (m_blockArray demo_state ! 1))"
proof -
  let ?bs = "m_blockArray demo_state"
  note main = data_blocks_grouped [OF demo_parse]
  have d: "map is_data ?bs = [False, False, True, False, False]"
    by (simp add: demo_state_def is_data_def Identify_def BlockDATA_def)
  have o: "map fileOffset ?bs = [12, 100, 136, 164, 188]"
    by (simp add: demo_state_def)
  have k: "map (map fileOffset \<circ> childBlocks) ?bs = [[], [136], [], [], []]"
    by (simp add: demo_state_def)
  have d1: "\<not> is_data (?bs ! 1)" and d2: "is_data (?bs ! 2)"
    by (simp_all add: demo_state_def is_data_def Identify_def BlockDATA_def)
  have len: "2 < length ?bs" by (simp add: demo_state_def)
  have run: "\<forall>k. 1 < k \<and> k \<le> 2 \<longrightarrow> is_data (?bs ! k)"
  proof (intro allI impI)
    fix k :: nat assume "1 < k \<and> k \<le> 2"
    then have "k = 2" by simp
    then show "is_data (?bs ! k)" using d2 by simp
  qed
  have "(1::nat) < 2" by simp
  with main len d1 run have near: "?bs ! 2 \<in> set (childBlocks (?bs ! 1))" by blast
  from main have g: "grouped ?bs" by blast
  show ?thesis using demo_parse demo_chunks d o k g near by simp
qed


section \<open>Walks along a chain\<close>

lemma TraverseCollectionObjects_chain:
  "next_chain (TraverseCollectionObjects_body mem st) st a bs \<Longrightarrow>
   TraverseCollectionObjects mem st a (cout, visited)
     = Some (Inr (cout @ concat (map (printed (TraverseCollectionObjects_body mem st)) bs),
                  visited @ bs))"
proof (induction bs arbitrary: a cout visited)
  case Nil
  then show ?case by simp
next
  case (Cons b bs)
  show ?case
  proof (cases bs)
    case Nil
    with Cons.prems obtain out where
      f: "FindFileBlockByOldAddr st a = Some b"
      and b: "TraverseCollectionObjects_body mem st b = Some (Inr (out, 0))"
      by auto
    have pb: "printed (TraverseCollectionObjects_body mem st) b = out"
      using b by (simp add: printed_def)
    show ?thesis
      using f b Nil by (subst TraverseCollectionObjects.simps) (simp add: pb)
  next
    case (Cons c cs)
    with Cons.prems obtain out n where
      f: "FindFileBlockByOldAddr st a = Some b"
      and b: "TraverseCollectionObjects_body mem st b = Some (Inr (out, n))" "n \<noteq> 0"
      and rest: "next_chain (TraverseCollectionObjects_body mem st) st n bs"
      by auto
    have pb: "printed (TraverseCollectionObjects_body mem st) b = out"
      using b by (simp add: printed_def)
    show ?thesis
      using f b Cons.IH [OF rest, of "cout @ out" "visited @ [b]"]
      by (subst TraverseCollectionObjects.simps) (simp add: pb)
  qed
qed

lemma TraversePoseChannels_chain:
  "next_chain (TraversePoseChannels_body mem st) st a bs \<Longrightarrow>
   TraversePoseChannels mem st a (cout, visited)
     = Some (Inr (cout @ concat (map (printed (TraversePoseChannels_body mem st)) bs),
                  visited @ bs))"
proof (induction bs arbitrary: a cout visited)
  case Nil
  then show ?case by simp
next
  case (Cons b bs)
  show ?case
  proof (cases bs)
    case Nil
    with Cons.prems obtain out where
      f: "FindFileBlockByOldAddr st a = Some b"
      and b: "TraversePoseChannels_body mem st b = Some (Inr (out, 0))"
      by auto
    have pb: "printed (TraversePoseChannels_body mem st) b = out"
      using b by (simp add: printed_def)
    show ?thesis
      using f b Nil by (subst TraversePoseChannels.simps) (simp add: pb)
  next
    case (Cons c cs)
    with Cons.prems obtain out n where
      f: "FindFileBlockByOldAddr st a = Some b"
      and b: "TraversePoseChannels_body mem st b = Some (Inr (out, n))" "n \<noteq> 0"
      and rest: "next_chain (TraversePoseChannels_body mem st) st n bs"
      by auto
    have pb: "printed (TraversePoseChannels_body mem st) b = out"
      using b by (simp add: printed_def)
    show ?thesis
      using f b Cons.IH [OF rest, of "cout @ out" "visited @ [b]"]
      by (subst TraversePoseChannels.simps) (simp add: pb)
  qed
qed

lemma replicate_pred_numeral:
  "replicate (numeral k) x = x # replicate (pred_numeral k) x"
  by (simp add: numeral_eq_Suc)

lemma chain_parse: "ParseFile chain_file = Inr (Parsed, chain_state)"
  by (simp add: ParseFile_def ParseSDNA_def ParseFile_loop.simps skip_string.simps
      chain_file_def chain_state_def eval_defs loop_numerals replicate_pred_numeral)

lemmas chain_eval = GetFieldOffset_def at_vec_def AsString_def cstring_at_def byte_char_def
  GetFieldSizeByName_def starts_with_def isdigit_def chain_file_def chain_state_def Let_def

lemma chain_offsets:
  "GetFieldOffset chain_file chain_state ''CollectionObject'' ''*ob'' = Some (Inr 16)"
  "GetFieldOffset chain_file chain_state ''CollectionObject'' ''*next'' = Some (Inr 0)"
  "GetFieldOffset chain_file chain_state ''ID'' ''name[66]'' = Some (Inr 0)"
  "GetFieldOffset chain_file chain_state ''bPoseChannel'' ''name[64]'' = Some (Inr 16)"
  "GetFieldOffset chain_file chain_state ''bPoseChannel'' ''*bone'' = Some (Inr 8)"
  "GetFieldOffset chain_file chain_state ''bPoseChannel'' ''chan_mat[4][4]'' = Some (Inr 80)"
  "GetFieldOffset chain_file chain_state ''bPoseChannel'' ''*next'' = Some (Inr 0)"
  "GetFieldOffset chain_file chain_state ''Bone'' ''name[64]'' = Some (Inr 0)"
  by (simp_all add: chain_eval)

lemmas read_eval = PeekTypePtr_def Advance_def deref_u64_def deref_u32_def read_bytes_def
  le_word_def cstring_at_def byte_char_def chain_file_def chain_state_def Let_def

lemma chain_asserts:
  "assert_struct chain_file chain_state (m_blockArray chain_state ! 2) ''CollectionObject''
     = Some (Inr ())"
  "assert_struct chain_file chain_state (m_blockArray chain_state ! 3) ''CollectionObject''
     = Some (Inr ())"
  "assert_struct chain_file chain_state (m_blockArray chain_state ! 4) ''bPoseChannel''
     = Some (Inr ())"
  "assert_struct chain_file chain_state (m_blockArray chain_state ! 5) ''bPoseChannel''
     = Some (Inr ())"
  by (simp_all add: assert_struct_def bind_run_def IdentifyStruct_def at_vec_def AsString_def
      cstring_at_def byte_char_def chain_file_def chain_state_def)

lemma chain_pointers:
  "read_pointer_field chain_file chain_state (m_blockArray chain_state ! 2)
     ''CollectionObject'' ''*ob'' = Some (Inr 0x5000)"
  "read_pointer_field chain_file chain_state (m_blockArray chain_state ! 2)
     ''CollectionObject'' ''*next'' = Some (Inr 0x3040)"
  "read_pointer_field chain_file chain_state (m_blockArray chain_state ! 3)
     ''CollectionObject'' ''*ob'' = Some (Inr 0)"
  "read_pointer_field chain_file chain_state (m_blockArray chain_state ! 3)
     ''CollectionObject'' ''*next'' = Some (Inr 0)"
  "read_pointer_field chain_file chain_state (m_blockArray chain_state ! 4)
     ''bPoseChannel'' ''*bone'' = Some (Inr 0x6000)"
  "read_pointer_field chain_file chain_state (m_blockArray chain_state ! 4)
     ''bPoseChannel'' ''*next'' = Some (Inr 0x4100)"
  "read_pointer_field chain_file chain_state (m_blockArray chain_state ! 5)
     ''bPoseChannel'' ''*bone'' = Some (Inr 0x6000)"
  "read_pointer_field chain_file chain_state (m_blockArray chain_state ! 5)
     ''bPoseChannel'' ''*next'' = Some (Inr 0)"
  by (simp_all add: read_pointer_field_def bind_run_def chain_offsets)
     (simp_all add: read_eval)

lemma chain_strings:
  "read_string_field chain_file chain_state (m_blockArray chain_state ! 4)
     ''bPoseChannel'' ''name[64]'' = Some (Inr ''root'')"
  "read_string_field chain_file chain_state (m_blockArray chain_state ! 5)
     ''bPoseChannel'' ''name[64]'' = Some (Inr ''arm'')"
  "read_string_field chain_file chain_state (m_blockArray chain_state ! 6)
     ''Bone'' ''name[64]'' = Some (Inr ''Bone'')"
  "GetBlockNameByID chain_file chain_state (m_blockArray chain_state ! 1) True
     = Some (Inr ''Cube'')"
  by (simp_all add: read_string_field_def GetBlockNameByID_def bind_run_def chain_offsets)
     (simp_all add: read_eval)

lemma chain_finds:
  "FindFileBlockByOldAddr chain_state 0x3000 = Some (m_blockArray chain_state ! 2)"
  "FindFileBlockByOldAddr chain_state 0x3040 = Some (m_blockArray chain_state ! 3)"
  "FindFileBlockByOldAddr chain_state 0x4000 = Some (m_blockArray chain_state ! 4)"
  "FindFileBlockByOldAddr chain_state 0x4100 = Some (m_blockArray chain_state ! 5)"
  "FindFileBlockByOldAddr chain_state 0x5000 = Some (m_blockArray chain_state ! 1)"
  "FindFileBlockByOldAddr chain_state 0x6000 = Some (m_blockArray chain_state ! 6)"
  "FindFileBlockByOldAddr chain_state 0 = None"
  by (simp_all add: FindFileBlockByOldAddr_def chain_state_def)

lemma print_floats_Suc_numeral:
  "print_floats mem base i (numeral k) = print_floats mem base i (Suc (pred_numeral k))"
  "print_floats mem base i 1 = print_floats mem base i (Suc 0)"
  by (simp_all only: numeral_eq_Suc One_nat_def)

lemmas print_floats_numeral = print_floats_Suc_numeral [unfolded print_floats.simps]

lemma chain_bodies:
  "TraverseCollectionObjects_body chain_file chain_state (m_blockArray chain_state ! 2)
     = Some (Inr ([Text ''  Object name: '', Text ''Cube'', Text [CHR 0x0A]], 0x3040))"
  "TraverseCollectionObjects_body chain_file chain_state (m_blockArray chain_state ! 3)
     = Some (Inr ([], 0))"
  by (simp_all add: TraverseCollectionObjects_body_def chain_asserts chain_pointers chain_finds
      chain_strings [unfolded One_nat_def] bind_run_def)

lemma chain_explore:
  "\<exists>out. ExplorePoseChannel chain_file chain_state (m_blockArray chain_state ! 4)
           = Some (Inr out)"
  "\<exists>out. ExplorePoseChannel chain_file chain_state (m_blockArray chain_state ! 5)
           = Some (Inr out)"
  by (simp_all add: ExplorePoseChannel_def chain_pointers chain_finds chain_strings chain_offsets
      bind_run_def)
     (simp_all add: print_floats_numeral read_eval)

lemma chain_pose_bodies:
  "\<exists>out. TraversePoseChannels_body chain_file chain_state (m_blockArray chain_state ! 4)
     = Some (Inr (out, 0x4100))"
  "\<exists>out. TraversePoseChannels_body chain_file chain_state (m_blockArray chain_state ! 5)
     = Some (Inr (out, 0))"
  using chain_explore
  by (auto simp: TraversePoseChannels_body_def chain_asserts chain_pointers bind_run_def)

lemma loose_parse: "ParseFile loose_file = Inr (Parsed, chain_state)"
  by (simp add: ParseFile_def ParseSDNA_def ParseFile_loop.simps skip_string.simps
      loose_file_def chain_state_def eval_defs loop_numerals replicate_pred_numeral)

lemmas loose_eval = GetFieldOffset_def at_vec_def AsString_def cstring_at_def byte_char_def
  GetFieldSizeByName_def starts_with_def isdigit_def loose_file_def chain_state_def Let_def

lemma loose_offsets:
  "GetFieldOffset loose_file chain_state ''bPoseChannel'' ''name[64]'' = Some (Inr 16)"
  "GetFieldOffset loose_file chain_state ''bPoseChannel'' ''*bone'' = Some (Inr 8)"
  "GetFieldOffset loose_file chain_state ''bPoseChannel'' ''*next'' = Some (Inr 0)"
  by (simp_all add: loose_eval)

lemmas loose_read = PeekTypePtr_def Advance_def deref_u64_def deref_u32_def read_bytes_def
  le_word_def cstring_at_def byte_char_def loose_file_def chain_state_def Let_def

lemma loose_asserts:
  "assert_struct loose_file chain_state (m_blockArray chain_state ! 4) ''bPoseChannel''
     = Some (Inr ())"
  by (simp_all add: assert_struct_def bind_run_def IdentifyStruct_def at_vec_def AsString_def
      cstring_at_def byte_char_def loose_file_def chain_state_def)

lemma loose_pointers:
  "read_pointer_field loose_file chain_state (m_blockArray chain_state ! 4)
     ''bPoseChannel'' ''*bone'' = Some (Inr 0)"
  "read_pointer_field loose_file chain_state (m_blockArray chain_state ! 4)
     ''bPoseChannel'' ''*next'' = Some (Inr 0x4100)"
  "read_pointer_field loose_file chain_state (m_blockArray chain_state ! 5)
     ''bPoseChannel'' ''*next'' = Some (Inr 0)"
  by (simp_all add: read_pointer_field_def bind_run_def loose_offsets)
     (simp_all add: loose_read)

lemma loose_strings:
  "read_string_field loose_file chain_state (m_blockArray chain_state ! 4)
     ''bPoseChannel'' ''name[64]'' = Some (Inr ''root'')"
  by (simp_all add: read_string_field_def bind_run_def loose_offsets)
     (simp_all add: loose_read)

lemma loose_explore:
  "ExplorePoseChannel loose_file chain_state (m_blockArray chain_state ! 4)
     = Some (Inl AssertFailed)"
  by (simp add: ExplorePoseChannel_def loose_pointers loose_strings chain_finds bind_run_def)

lemma loose_body:
  "TraversePoseChannels_body loose_file chain_state (m_blockArray chain_state ! 4)
     = Some (Inl AssertFailed)"
  by (simp add: TraversePoseChannels_body_def loose_asserts loose_explore bind_run_def)

text \<open>
  C8, as the claim states it, fails: in \<open>loose_file\<close> the two pose channels form a chain
  from the address \<open>0x4000\<close>: the first has the address of the second in \<^verbatim>\<open>*next\<close>, the
  second has a zero address there. The walk does not get to the second: the address in
  \<^verbatim>\<open>*bone\<close> of the first resolves to no block, and the assertion in
  \<^verbatim>\<open>ExplorePoseChannel\<close> fails.
\<close>

theorem walk_stops_at_missing_bone:
  "ParseFile loose_file = Inr (Parsed, chain_state)
   \<and> FindFileBlockByOldAddr chain_state 0x4000 = Some (m_blockArray chain_state ! 4)
   \<and> read_pointer_field loose_file chain_state (m_blockArray chain_state ! 4)
        ''bPoseChannel'' ''*next'' = Some (Inr 0x4100)
   \<and> FindFileBlockByOldAddr chain_state 0x4100 = Some (m_blockArray chain_state ! 5)
   \<and> read_pointer_field loose_file chain_state (m_blockArray chain_state ! 5)
        ''bPoseChannel'' ''*next'' = Some (Inr 0)
   \<and> TraversePoseChannels loose_file chain_state 0x4000 ([], []) = Some (Inl AssertFailed)"
proof -
  have "TraversePoseChannels loose_file chain_state 0x4000 ([], []) = Some (Inl AssertFailed)"
    by (subst TraversePoseChannels.simps) (simp add: chain_finds loose_body)
  then show ?thesis
    using loose_parse chain_finds loose_pointers by simp
qed

text \<open>
  C8, amended. Along a chain of \<open>N\<close> blocks, each found at the address read from
  \<^verbatim>\<open>*next\<close> of the one before, the last with a zero address there, and each worked on
  by the body of the walk without a fault (the block has the asserted struct, the offsets
  of the fields are found, the reads stay inside the buffer and, for a pose channel, the
  address in \<^verbatim>\<open>*bone\<close> resolves), each of the two walks returns, and the blocks it
  has worked on are exactly the \<open>N\<close> blocks of the chain, in the order of the chain;
  what it has printed is what the body prints for each of them, in that order.
\<close>

theorem navigate_chain:
  "(next_chain (TraverseCollectionObjects_body mem st) st a bs \<longrightarrow>
      TraverseCollectionObjects mem st a (cout, visited)
        = Some (Inr (cout @ concat (map (printed (TraverseCollectionObjects_body mem st)) bs),
                     visited @ bs)))
   \<and> (next_chain (TraversePoseChannels_body mem st) st a bs \<longrightarrow>
      TraversePoseChannels mem st a (cout, visited)
        = Some (Inr (cout @ concat (map (printed (TraversePoseChannels_body mem st)) bs),
                     visited @ bs)))"
  using TraverseCollectionObjects_chain TraversePoseChannels_chain by blast

theorem navigate_chain_witness:
  "ParseFile chain_file = Inr (Parsed, chain_state)
   \<and> TraverseCollectionObjects chain_file chain_state 0x3000 ([], [])
     = Some (Inr ([Text ''  Object name: '', Text ''Cube'', Text [CHR 0x0A]],
                  [m_blockArray chain_state ! 2, m_blockArray chain_state ! 3]))
   \<and> map_option (map_sum id snd) (TraversePoseChannels chain_file chain_state 0x4000 ([], []))
     = Some (Inr [m_blockArray chain_state ! 4, m_blockArray chain_state ! 5])"
proof -
  let ?co = "TraverseCollectionObjects_body chain_file chain_state"
  let ?pc = "TraversePoseChannels_body chain_file chain_state"
  let ?b = "\<lambda>i. m_blockArray chain_state ! i"
  have c1: "next_chain ?co chain_state 0x3000 [?b 2, ?b 3]"
    by (simp add: chain_finds chain_bodies)
  have c2: "next_chain ?pc chain_state 0x4000 [?b 4, ?b 5]"
    using chain_pose_bodies by (auto simp: chain_finds)
  have p: "concat (map (printed ?co) [?b 2, ?b 3])
             = [Text ''  Object name: '', Text ''Cube'', Text [CHR 0x0A]]"
    by (simp add: printed_def chain_bodies)
  from navigate_chain [of chain_file chain_state "0x3000" "[?b 2, ?b 3]" "[]" "[]"] c1
  have "TraverseCollectionObjects chain_file chain_state 0x3000 ([], [])
     = Some (Inr ([Text ''  Object name: '', Text ''Cube'', Text [CHR 0x0A]], [?b 2, ?b 3]))"
    unfolding p by simp
  moreover from navigate_chain [of chain_file chain_state "0x4000" "[?b 4, ?b 5]" "[]" "[]"] c2
  have "map_option (map_sum id snd) (TraversePoseChannels chain_file chain_state 0x4000 ([], []))
     = Some (Inr [?b 4, ?b 5])"
    by simp
  ultimately show ?thesis using chain_parse by blast
qed

text \<open>
  A block whose \<^verbatim>\<open>*next\<close> is its own address: the walk does not return.
\<close>

lemma TraverseCollectionObjects_cycle_aux:
  assumes "TraverseCollectionObjects mem st x acc = Some y"
  shows "\<not> (\<exists>b out. x = a \<and> a \<noteq> 0 \<and> FindFileBlockByOldAddr st a = Some b
              \<and> TraverseCollectionObjects_body mem st b = Some (Inr (out, a)))"
proof (rule TraverseCollectionObjects.raw_induct [OF _ assms])
  fix f mem' st' x' acc' y'
  assume IH: "\<And>mem st x acc y. f mem st x acc = Some y \<Longrightarrow>
         \<not> (\<exists>b out. x = a \<and> a \<noteq> 0 \<and> FindFileBlockByOldAddr st a = Some b
              \<and> TraverseCollectionObjects_body mem st b = Some (Inr (out, a)))"
    and step: "(case FindFileBlockByOldAddr st' x' of
        None \<Rightarrow> Some (Inr acc')
      | Some collectionObject \<Rightarrow>
          (case TraverseCollectionObjects_body mem' st' collectionObject of
             None \<Rightarrow> None
           | Some (Inl e) \<Rightarrow> Some (Inl e)
           | Some (Inr (out, nextAddr)) \<Rightarrow>
               if nextAddr \<noteq> 0
               then f mem' st' nextAddr (fst acc' @ out, snd acc' @ [collectionObject])
               else Some (Inr (fst acc' @ out, snd acc' @ [collectionObject])))) = Some y'"
  show "\<not> (\<exists>b out. x' = a \<and> a \<noteq> 0 \<and> FindFileBlockByOldAddr st' a = Some b
              \<and> TraverseCollectionObjects_body mem' st' b = Some (Inr (out, a)))"
  proof
    assume "\<exists>b out. x' = a \<and> a \<noteq> 0 \<and> FindFileBlockByOldAddr st' a = Some b
              \<and> TraverseCollectionObjects_body mem' st' b = Some (Inr (out, a))"
    then obtain b out where c: "x' = a" "a \<noteq> 0" "FindFileBlockByOldAddr st' a = Some b"
      "TraverseCollectionObjects_body mem' st' b = Some (Inr (out, a))" by blast
    with step have "f mem' st' a (fst acc' @ out, snd acc' @ [b]) = Some y'" by simp
    from IH [OF this] c show False by blast
  qed
qed

lemma TraverseCollectionObjects_self_cycle:
  "a \<noteq> 0 \<Longrightarrow> FindFileBlockByOldAddr st a = Some b \<Longrightarrow>
   TraverseCollectionObjects_body mem st b = Some (Inr (out, a)) \<Longrightarrow>
   TraverseCollectionObjects mem st a acc = None"
  using TraverseCollectionObjects_cycle_aux [of mem st a acc _ a]
  by (cases "TraverseCollectionObjects mem st a acc") auto


end
